theory Spec2Isabelle
  imports Main "HOL-Library.AList"
begin

section \<open>Python strings and POSIX paths\<close>

text \<open>
  Byte strings are \<^typ>\<open>string\<close>. \<open>s.startswith(p)\<close>, \<open>s.endswith(t)\<close> for a
  tuple \<open>t\<close> of suffixes, and the slice \<open>s[n:]\<close> (which is \<^term>\<open>drop n s\<close>).
\<close>

definition startswith :: "string \<Rightarrow> string \<Rightarrow> bool" where
  "startswith s p = (take (length p) s = p)"

definition endswith1 :: "string \<Rightarrow> string \<Rightarrow> bool" where
  "endswith1 s e = (length e \<le> length s \<and> drop (length s - length e) s = e)"

definition endswith :: "string \<Rightarrow> string list \<Rightarrow> bool" where
  "endswith s es = list_ex (endswith1 s) es"

abbreviation slash :: char where
  "slash \<equiv> CHR ''/''"

text \<open>
  \<open>os.path.basename\<close>, \<open>os.path.dirname\<close> (posixpath): the path is cut after its
  last slash; the head loses its trailing slashes unless it consists of slashes only.
\<close>

definition basename :: "string \<Rightarrow> string" where
  "basename p = rev (takeWhile (\<lambda>c. c \<noteq> slash) (rev p))"

definition rstrip_slash :: "string \<Rightarrow> string" where
  "rstrip_slash h = rev (dropWhile (\<lambda>c. c = slash) (rev h))"

definition dirname :: "string \<Rightarrow> string" where
  "dirname p =
     (let head = rev (dropWhile (\<lambda>c. c \<noteq> slash) (rev p)) in
      if head \<noteq> [] \<and> head \<noteq> replicate (length head) slash
      then rstrip_slash head else head)"

text \<open>\<open>os.path.join(a, b)\<close> for two arguments.\<close>

definition os_path_join :: "string \<Rightarrow> string \<Rightarrow> string" where
  "os_path_join a b =
     (if startswith b ''/'' then b
      else if a = [] \<or> endswith1 a ''/'' then a @ b
      else a @ ''/'' @ b)"

text \<open>\<open>s.split('/')\<close> and \<open>'/'.join(comps)\<close>.\<close>

fun split_slash :: "string \<Rightarrow> string list" where
  "split_slash [] = [[]]"
| "split_slash (c # cs) =
     (if c = slash then [] # split_slash cs
      else (case split_slash cs of
              [] \<Rightarrow> [[c]]
            | x # xs \<Rightarrow> (c # x) # xs))"

fun join_slash :: "string list \<Rightarrow> string" where
  "join_slash [] = []"
| "join_slash [x] = x"
| "join_slash (x # y # ys) = x @ ''/'' @ join_slash (y # ys)"

text \<open>
  \<open>os.path.normpath\<close> (posixpath): empty and \<open>.\<close> components are dropped, \<open>..\<close>
  removes the component before it where there is one, exactly two leading slashes are
  kept, and the empty result is \<open>.\<close>.
\<close>

definition normpath_step :: "nat \<Rightarrow> string list \<Rightarrow> string \<Rightarrow> string list" where
  "normpath_step initial_slashes new_comps cmp =
     (if cmp = [] \<or> cmp = ''.'' then new_comps
      else if cmp \<noteq> ''..'' \<or> (initial_slashes = 0 \<and> new_comps = [])
                \<or> (new_comps \<noteq> [] \<and> last new_comps = ''..'')
      then new_comps @ [cmp]
      else if new_comps \<noteq> [] then butlast new_comps
      else new_comps)"

definition normpath :: "string \<Rightarrow> string" where
  "normpath path =
     (if path = [] then ''.''
      else
        let initial_slashes =
              (if startswith path ''/''
               then (if startswith path ''//'' \<and> \<not> startswith path ''///''
                     then 2 else 1)
               else 0);
            comps = foldl (normpath_step initial_slashes) [] (split_slash path);
            path' = replicate initial_slashes slash @ join_slash comps
        in if path' = [] then ''.'' else path')"

section \<open>Failures\<close>

text \<open>
  Every exception the performers can raise is a value. \<open>UnhandledIntent\<close> is the
  dispatcher's failure for an intent without performer, \<open>OutOfFuel\<close> belongs to the
  model only (the bound on nested dispatch ran out).
\<close>

datatype errno = EEXIST | ENOENT | ENOTDIR | EISDIR

datatype error =
    UnhandledIntent
  | OutOfFuel
  | KeyError
  | IndexError
  | AttributeError
  | TypeError
  | InsecurePath
  | S3ResponseError
  | IOError errno
  | OSError errno

section \<open>The local filesystem\<close>

text \<open>
  A \<open>FilePath\<close> is modelled by its \<open>path\<close> attribute, an absolute normalised path
  string (\<open>FilePath\<close> applies \<open>abspath\<close> on construction). The filesystem maps such
  paths to regular files with their bytes, or to directories; the order of the entries is
  the order in which \<open>listdir\<close> reports them. Symbolic links are not modelled.
\<close>

datatype node = File string | Dir

type_synonym filesystem = "(string \<times> node) list"

definition exists :: "filesystem \<Rightarrow> string \<Rightarrow> bool" where
  "exists fs p = (map_of fs p \<noteq> None)"

definition isdir :: "filesystem \<Rightarrow> string \<Rightarrow> bool" where
  "isdir fs p = (map_of fs p = Some Dir)"

definition isfile :: "filesystem \<Rightarrow> string \<Rightarrow> bool" where
  "isfile fs p = (case map_of fs p of Some (File c) \<Rightarrow> True | _ \<Rightarrow> False)"

text \<open>\<open>with path.open() as f: f.read()\<close>.\<close>

definition read_file :: "filesystem \<Rightarrow> string \<Rightarrow> error + string" where
  "read_file fs p =
     (case map_of fs p of
        None \<Rightarrow> Inl (IOError ENOENT)
      | Some Dir \<Rightarrow> Inl (IOError EISDIR)
      | Some (File c) \<Rightarrow> Inr c)"

text \<open>
  \<open>path.open('w')\<close>: the file is created or truncated; this needs the parent to be a
  directory and the path not to be one.
\<close>

definition open_w :: "filesystem \<Rightarrow> string \<Rightarrow> error + filesystem" where
  "open_w fs p =
     (case map_of fs p of
        Some Dir \<Rightarrow> Inl (IOError EISDIR)
      | _ \<Rightarrow>
        (case map_of fs (dirname p) of
           None \<Rightarrow> Inl (IOError ENOENT)
         | Some (File c) \<Rightarrow> Inl (IOError ENOTDIR)
         | Some Dir \<Rightarrow> Inr (AList.update p (File []) fs)))"

text \<open>
  \<open>path.setContent(bytes)\<close>: the bytes are written to a temporary sibling, which is
  then renamed onto the path. The sibling that a failed rename leaves behind is not
  modelled.
\<close>

definition setContent :: "filesystem \<Rightarrow> string \<Rightarrow> string \<Rightarrow> error + filesystem" where
  "setContent fs p c =
     (case map_of fs (dirname p) of
        None \<Rightarrow> Inl (IOError ENOENT)
      | Some (File x) \<Rightarrow> Inl (IOError ENOTDIR)
      | Some Dir \<Rightarrow>
        (case map_of fs p of
           Some Dir \<Rightarrow> Inl (OSError EISDIR)
         | _ \<Rightarrow> Inr (AList.update p (File c) fs)))"

text \<open>\<open>os.mkdir\<close>.\<close>

definition mkdir :: "filesystem \<Rightarrow> string \<Rightarrow> error + filesystem" where
  "mkdir fs p =
     (if exists fs p then Inl (OSError EEXIST)
      else (case map_of fs (dirname p) of
              None \<Rightarrow> Inl (OSError ENOENT)
            | Some (File c) \<Rightarrow> Inl (OSError ENOTDIR)
            | Some Dir \<Rightarrow> Inr (fs @ [(p, Dir)])))"

lemma length_rstrip_slash: "length (rstrip_slash h) \<le> length h"
  by (simp add: rstrip_slash_def) (metis length_dropWhile_le length_rev)

lemma length_dirname_basename: "length (dirname p) + length (basename p) \<le> length p"
proof -
  define h where "h = rev (dropWhile (\<lambda>c. c \<noteq> slash) (rev p))"
  have "length h + length (basename p) = length p"
    unfolding basename_def h_def
    by (metis length_append length_rev takeWhile_dropWhile_id add.commute)
  moreover have "dirname p = (if h \<noteq> [] \<and> h \<noteq> replicate (length h) slash
                              then rstrip_slash h else h)"
    by (simp add: dirname_def h_def Let_def)
  then have "length (dirname p) \<le> length h"
    using length_rstrip_slash [of h] by (simp split: if_splits)
  ultimately show ?thesis by linarith
qed

lemma dirname_shorter: "basename p \<noteq> [] \<Longrightarrow> length (dirname p) < length p"
  using length_dirname_basename [of p] by (cases "basename p") auto

text \<open>
  \<open>path.makedirs()\<close>, which is \<open>os.makedirs(path.path)\<close>: the missing ancestors are
  created first; an \<open>EEXIST\<close> from that recursive call is ignored, any other failure of
  it is raised. The directories created before a failure stay, so the filesystem is
  returned in both cases.
\<close>

function makedirs :: "filesystem \<Rightarrow> string \<Rightarrow> error option \<times> filesystem" where
  "makedirs fs name =
     (let (head, tail) =
            (if basename name = []
             then (dirname (dirname name), basename (dirname name))
             else (dirname name, basename name))
      in if head \<noteq> [] \<and> tail \<noteq> [] \<and> \<not> exists fs head
         then (case makedirs fs head of
                 (r, fs') \<Rightarrow>
                   (if r \<noteq> None \<and> r \<noteq> Some (OSError EEXIST) then (r, fs')
                    else if tail = ''.'' then (None, fs')
                    else (case mkdir fs' name of
                            Inl e \<Rightarrow> (Some e, fs')
                          | Inr fs'' \<Rightarrow> (None, fs''))))
         else (case mkdir fs name of
                 Inl e \<Rightarrow> (Some e, fs)
               | Inr fs'' \<Rightarrow> (None, fs'')))"
  by pat_completeness auto
termination
proof (relation "measure (\<lambda>(fs, name). length name)", goal_cases)
  case 1
  show ?case by simp
next
  case (2 fs name x head tail)
  then show ?case
    using dirname_shorter [of name] dirname_shorter [of "dirname name"]
          length_dirname_basename [of name]
    by (auto split: if_splits)
qed

declare makedirs.simps [simp del]

text \<open>
  \<open>path.children()\<close> and \<open>path.walk()\<close>: the path itself, then, when it is a
  directory, the walk of each child in turn.
\<close>

definition children :: "filesystem \<Rightarrow> string \<Rightarrow> string list" where
  "children fs p = remdups [q \<leftarrow> map fst fs. q \<noteq> p \<and> dirname q = p]"

lemma dirname_prefix: "take (length (dirname q)) q = dirname q"
proof -
  define h where "h = rev (dropWhile (\<lambda>c. c \<noteq> slash) (rev q))"
  have q: "q = h @ basename q"
    unfolding h_def basename_def
    by (metis rev_append rev_rev_ident takeWhile_dropWhile_id)
  have r: "h = rstrip_slash h @ rev (takeWhile (\<lambda>c. c = slash) (rev h))"
    unfolding rstrip_slash_def
    by (metis rev_append rev_rev_ident takeWhile_dropWhile_id)
  have d: "dirname q = (if h \<noteq> [] \<and> h \<noteq> replicate (length h) slash
                         then rstrip_slash h else h)"
    by (simp add: dirname_def h_def Let_def)
  show ?thesis
  proof (cases "h \<noteq> [] \<and> h \<noteq> replicate (length h) slash")
    case True
    then have "dirname q = rstrip_slash h" using d by simp
    moreover have "q = rstrip_slash h @ (rev (takeWhile (\<lambda>c. c = slash) (rev h)) @ basename q)"
      using q r by (metis append.assoc)
    ultimately show ?thesis by (metis append_eq_conv_conj)
  next
    case False
    then have "dirname q = h" using d by auto
    then show ?thesis using q by (metis append_eq_conv_conj)
  qed
qed

lemma child_longer: "dirname q = p \<Longrightarrow> q \<noteq> p \<Longrightarrow> length p < length q"
proof -
  assume a: "dirname q = p" "q \<noteq> p"
  have "length p \<le> length q" using length_dirname_basename [of q] a by simp
  moreover have "length p = length q \<Longrightarrow> q = p"
    using dirname_prefix [of q] a by simp
  ultimately show ?thesis using a by (cases "length p = length q") auto
qed

lemma longer_filter_decreases:
  "q \<in> set xs \<Longrightarrow> length (p::string) < length q \<Longrightarrow>
   length [r \<leftarrow> xs. length q < length (r::string)] < length [r \<leftarrow> xs. length p < length r]"
proof -
  assume a: "q \<in> set xs" "length p < length q"
  have "[r \<leftarrow> xs. length q < length r]
        = [r \<leftarrow> [r \<leftarrow> xs. length p < length r]. length q < length r]"
    using a(2) by (auto intro: filter_cong)
  moreover have "q \<in> set [r \<leftarrow> xs. length p < length r]" using a by simp
  ultimately show ?thesis
    by (metis length_filter_less less_irrefl)
qed

function walk :: "filesystem \<Rightarrow> string \<Rightarrow> string list" where
  "walk fs p = p # (if isdir fs p then concat (map (walk fs) (children fs p)) else [])"
  by pat_completeness auto
termination
proof (relation "measure (\<lambda>(fs, p). length [r \<leftarrow> map fst fs. length p < length r])",
       goal_cases)
  case 1
  show ?case by simp
next
  case (2 fs p q)
  then have "q \<in> set (map fst fs)" "dirname q = p" "q \<noteq> p"
    by (auto simp: children_def)
  then have "q \<in> set (map fst fs)" "length p < length q"
    using child_longer [of q p] by simp_all
  then have "length [r \<leftarrow> map fst fs. length q < length r]
             < length [r \<leftarrow> map fst fs. length p < length r]"
    by (rule longer_filter_decreases)
  then show ?case by (simp only: in_measure prod.case)
qed

declare walk.simps [simp del]

text \<open>
  \<open>path.preauthChild(name)\<close>: the normalised join, which must still start with the
  path it is a child of.
\<close>

definition preauthChild :: "string \<Rightarrow> string \<Rightarrow> error + string" where
  "preauthChild self path =
     (let newpath = normpath (os_path_join self (normpath path)) in
      if \<not> startswith newpath self then Inl InsecurePath else Inr newpath)"

section \<open>Intents\<close>

text \<open>
  One constructor per intent class of \<open>admin/aws.py\<close>, the fields in the order of the
  \<open>@attributes\<close> lists. A \<open>FilePath\<close> field holds the path string.
\<close>

datatype intent =
    UpdateS3RoutingRule string string string
      \<comment> \<open>bucket, prefix, target_prefix\<close>
  | CreateCloudFrontInvalidation string "string list"
      \<comment> \<open>cname, paths\<close>
  | DeleteS3Keys string string "string list"
      \<comment> \<open>bucket, prefix, keys\<close>
  | CopyS3Keys string string string string "string list"
      \<comment> \<open>source_bucket, source_prefix, destination_bucket, destination_prefix, keys\<close>
  | ListS3Keys string string
      \<comment> \<open>bucket, prefix\<close>
  | DownloadS3KeyRecursively string string string "string list"
      \<comment> \<open>source_bucket, source_prefix, target_path, filter_extensions\<close>
  | DownloadS3Key string string string
      \<comment> \<open>source_bucket, source_key, target_path\<close>
  | UploadToS3Recursively string string string "string list"
      \<comment> \<open>source_path, target_bucket, target_key, files\<close>
  | UploadToS3 string string string string
      \<comment> \<open>source_path, target_bucket, target_key, file\<close>

text \<open>The class of an intent, which is what a \<open>TypeDispatcher\<close> looks up.\<close>

datatype intent_type =
    T_UpdateS3RoutingRule
  | T_CreateCloudFrontInvalidation
  | T_DeleteS3Keys
  | T_CopyS3Keys
  | T_ListS3Keys
  | T_DownloadS3KeyRecursively
  | T_DownloadS3Key
  | T_UploadToS3Recursively
  | T_UploadToS3

fun type_of :: "intent \<Rightarrow> intent_type" where
  "type_of (UpdateS3RoutingRule b p t) = T_UpdateS3RoutingRule"
| "type_of (CreateCloudFrontInvalidation c ps) = T_CreateCloudFrontInvalidation"
| "type_of (DeleteS3Keys b p ks) = T_DeleteS3Keys"
| "type_of (CopyS3Keys sb sp db dp ks) = T_CopyS3Keys"
| "type_of (ListS3Keys b p) = T_ListS3Keys"
| "type_of (DownloadS3KeyRecursively sb sp tp es) = T_DownloadS3KeyRecursively"
| "type_of (DownloadS3Key sb sk tp) = T_DownloadS3Key"
| "type_of (UploadToS3Recursively sp tb tk fs) = T_UploadToS3Recursively"
| "type_of (UploadToS3 sp tb tk f) = T_UploadToS3"

text \<open>
  What a performer returns: \<open>None\<close>, a byte string, or a set of byte strings. A set is
  a duplicate-free list; the order in which Python iterates over it is not specified, the
  model iterates in list order.
\<close>

datatype val = VNone | VBytes string | VSet "string list"

section \<open>The state the performers act on\<close>

text \<open>
  What the real performers reach through \<open>boto\<close>: per bucket the routing rules of its
  website configuration (absent when the bucket has none) and its objects (name to
  contents and whether the object is public); the CloudFront distributions and the
  invalidation requests made so far. Of a routing rule only \<open>condition.key_prefix\<close> and
  \<open>redirect.replace_key_prefix\<close> are kept.
\<close>

record routing_rule =
  key_prefix :: string
  replace_key_prefix :: string

record s3_bucket =
  website :: "routing_rule list option"
  objects :: "(string \<times> (string \<times> bool)) list"

record distribution =
  dist_id :: string
  cnames :: "string list"

record boto_state =
  buckets :: "(string \<times> s3_bucket) list"
  distributions :: "distribution list"
  invalidation_requests :: "(string \<times> string list) list"

text \<open>
  \<open>class FakeAWS\<close>. Its dictionaries are association lists in insertion order.
  Two bucket names never share one dictionary object.
\<close>

record FakeAWS =
  routing_rules :: "(string \<times> (string \<times> string) list) list"
  s3_buckets :: "(string \<times> (string \<times> string) list) list"
  cloudfront_invalidations :: "intent list"

text \<open>
  The whole state: the provider, the fake, the local filesystem, and the history of the
  intents handed to the dispatcher (no performer reads or writes the history).
\<close>

record world =
  boto :: boto_state
  fake :: FakeAWS
  local_fs :: filesystem
  dispatched :: "intent list"

type_synonym outcome = "(error + val) \<times> world"

text \<open>
  A performer receives the dispatcher (here: the function that performs an intent with
  it) and the intent. Performers are registered per intent class, so the equations for
  the other classes are never reached through a \<open>TypeDispatcher\<close>; there the missing
  attribute raises.
\<close>

type_synonym performer = "(intent \<Rightarrow> world \<Rightarrow> outcome) \<Rightarrow> intent \<Rightarrow> world \<Rightarrow> outcome"

section \<open>The real performers\<close>

text \<open>
  The assignment \<open>rule.redirect.replace_key_prefix = ...\<close> goes to the rule object the
  comprehension selected first, which is the first matching element of
  \<open>config.routing_rules\<close>.
\<close>

fun assign_first :: "string \<Rightarrow> string \<Rightarrow> routing_rule list \<Rightarrow> routing_rule list" where
  "assign_first prefix target [] = []"
| "assign_first prefix target (r # rs) =
     (if key_prefix r = prefix then r\<lparr>replace_key_prefix := target\<rparr> # rs
      else r # assign_first prefix target rs)"

definition set_bucket :: "string \<Rightarrow> s3_bucket \<Rightarrow> world \<Rightarrow> world" where
  "set_bucket name b w =
     w\<lparr>boto := (boto w)\<lparr>buckets := AList.update name b (buckets (boto w))\<rparr>\<rparr>"

fun perform_update_s3_routing_rule :: performer where
  "perform_update_s3_routing_rule dispatcher (UpdateS3RoutingRule bucket prefix target_prefix) w =
     (case map_of (buckets (boto w)) bucket of
        None \<Rightarrow> (Inl S3ResponseError, w)
      | Some b \<Rightarrow>
        (case website b of
           None \<Rightarrow> (Inl S3ResponseError, w)
         | Some config \<Rightarrow>
           (case [rule \<leftarrow> config. key_prefix rule = prefix] of
              [] \<Rightarrow> (Inl IndexError, w)
            | rule # _ \<Rightarrow>
              if replace_key_prefix rule = target_prefix then (Inr VNone, w)
              else
                let old_prefix = replace_key_prefix rule;
                    config' = assign_first prefix target_prefix config
                in (Inr (VBytes old_prefix),
                    set_bucket bucket (b\<lparr>website := Some config'\<rparr>) w))))"
| "perform_update_s3_routing_rule dispatcher _ w = (Inl AttributeError, w)"

fun perform_create_cloudfront_invalidation :: performer where
  "perform_create_cloudfront_invalidation dispatcher (CreateCloudFrontInvalidation cname paths) w =
     (case [dist \<leftarrow> distributions (boto w). cname \<in> set (cnames dist)] of
        [] \<Rightarrow> (Inl IndexError, w)
      | distribution # _ \<Rightarrow>
          (Inr VNone,
           w\<lparr>boto := (boto w)\<lparr>invalidation_requests :=
                invalidation_requests (boto w) @ [(dist_id distribution, paths)]\<rparr>\<rparr>))"
| "perform_create_cloudfront_invalidation dispatcher _ w = (Inl AttributeError, w)"

text \<open>\<open>bucket.delete_keys\<close> removes the named objects; a name without object is no failure.\<close>

fun perform_delete_s3_keys :: performer where
  "perform_delete_s3_keys dispatcher (DeleteS3Keys bucket prefix keys) w =
     (case map_of (buckets (boto w)) bucket of
        None \<Rightarrow> (Inl S3ResponseError, w)
      | Some b \<Rightarrow>
          (Inr VNone,
           set_bucket bucket
             (b\<lparr>objects := [kv \<leftarrow> objects b. fst kv \<notin> set [prefix @ key. key \<leftarrow> keys]]\<rparr>) w))"
| "perform_delete_s3_keys dispatcher _ w = (Inl AttributeError, w)"

text \<open>
  \<open>destination_bucket.copy_key\<close>, key by key; the copy fails when the source bucket
  or object does not exist, and the copies made before stay. The new object is not public.
\<close>

fun copy_keys :: "string \<Rightarrow> string \<Rightarrow> string \<Rightarrow> string \<Rightarrow> string list \<Rightarrow> world \<Rightarrow> outcome" where
  "copy_keys sb sp db dp [] w = (Inr VNone, w)"
| "copy_keys sb sp db dp (key # keys) w =
     (case map_of (buckets (boto w)) sb of
        None \<Rightarrow> (Inl S3ResponseError, w)
      | Some src \<Rightarrow>
        (case map_of (objects src) (sp @ key) of
           None \<Rightarrow> (Inl S3ResponseError, w)
         | Some (c, pub) \<Rightarrow>
           (case map_of (buckets (boto w)) db of
              None \<Rightarrow> (Inl S3ResponseError, w)
            | Some dst \<Rightarrow>
                copy_keys sb sp db dp keys
                  (set_bucket db
                     (dst\<lparr>objects := AList.update (dp @ key) (c, False) (objects dst)\<rparr>) w))))"

fun perform_copy_s3_keys :: performer where
  "perform_copy_s3_keys dispatcher (CopyS3Keys source_bucket source_prefix destination_bucket
       destination_prefix keys) w =
     (case map_of (buckets (boto w)) destination_bucket of
        None \<Rightarrow> (Inl S3ResponseError, w)
      | Some _ \<Rightarrow>
          copy_keys source_bucket source_prefix destination_bucket destination_prefix keys w)"
| "perform_copy_s3_keys dispatcher _ w = (Inl AttributeError, w)"

text \<open>\<open>bucket.list(prefix)\<close> yields the objects whose name starts with the prefix.\<close>

fun perform_list_s3_keys :: performer where
  "perform_list_s3_keys dispatcher (ListS3Keys bucket prefix) w =
     (case map_of (buckets (boto w)) bucket of
        None \<Rightarrow> (Inl S3ResponseError, w)
      | Some b \<Rightarrow>
          (Inr (VSet (remdups [drop (length prefix) name.
                                 name \<leftarrow> [n \<leftarrow> map fst (objects b). startswith n prefix]])),
           w))"
| "perform_list_s3_keys dispatcher _ w = (Inl AttributeError, w)"

text \<open>
  \<open>bucket.get_key\<close> returns \<open>None\<close> for a missing object, so the failure comes only
  after the target file has been opened for writing.
\<close>

fun perform_download_s3_key :: performer where
  "perform_download_s3_key dispatcher (DownloadS3Key source_bucket source_key target_path) w =
     (case map_of (buckets (boto w)) source_bucket of
        None \<Rightarrow> (Inl S3ResponseError, w)
      | Some b \<Rightarrow>
        (case open_w (local_fs w) target_path of
           Inl e \<Rightarrow> (Inl e, w)
         | Inr fs' \<Rightarrow>
           (case map_of (objects b) source_key of
              None \<Rightarrow> (Inl AttributeError, w\<lparr>local_fs := fs'\<rparr>)
            | Some (c, pub) \<Rightarrow>
                (Inr VNone, w\<lparr>local_fs := AList.update target_path (File c) fs'\<rparr>))))"
| "perform_download_s3_key dispatcher _ w = (Inl AttributeError, w)"

fun perform_upload_s3_key :: performer where
  "perform_upload_s3_key dispatcher (UploadToS3 source_path target_bucket target_key file) w =
     (case map_of (buckets (boto w)) target_bucket of
        None \<Rightarrow> (Inl S3ResponseError, w)
      | Some b \<Rightarrow>
        (case read_file (local_fs w) file of
           Inl e \<Rightarrow> (Inl e, w)
         | Inr c \<Rightarrow>
             (Inr VNone,
              set_bucket target_bucket
                (b\<lparr>objects := AList.update (target_key @ drop (length source_path) file)
                                 (c, True) (objects b)\<rparr>) w)))"
| "perform_upload_s3_key dispatcher _ w = (Inl AttributeError, w)"

section \<open>The composite performers\<close>

text \<open>
  The \<open>@do\<close> generators: every \<open>yield Effect(intent)\<close> performs the intent with the
  dispatcher the performer was given; a failure of it is raised inside the generator,
  which has no handler, so it ends the performer. The results of the loops are \<open>None\<close>.
\<close>

fun download_keys ::
  "(intent \<Rightarrow> world \<Rightarrow> outcome) \<Rightarrow> string \<Rightarrow> string \<Rightarrow> string \<Rightarrow> string list
     \<Rightarrow> string list \<Rightarrow> world \<Rightarrow> outcome" where
  "download_keys dispatcher source_bucket source_prefix target_path filter_extensions [] w =
     (Inr VNone, w)"
| "download_keys dispatcher source_bucket source_prefix target_path filter_extensions
       (key # keys) w =
     (if \<not> endswith key filter_extensions
      then download_keys dispatcher source_bucket source_prefix target_path
             filter_extensions keys w
      else
        (case preauthChild target_path key of
           Inl e \<Rightarrow> (Inl e, w)
         | Inr path \<Rightarrow>
           (case (if \<not> exists (local_fs w) (dirname path)
                  then makedirs (local_fs w) (dirname path)
                  else (None, local_fs w)) of
              (Some e, fs') \<Rightarrow> (Inl e, w\<lparr>local_fs := fs'\<rparr>)
            | (None, fs') \<Rightarrow>
              (let source_key = os_path_join source_prefix key in
               case dispatcher (DownloadS3Key source_bucket source_key path)
                      (w\<lparr>local_fs := fs'\<rparr>) of
                 (Inl e, w') \<Rightarrow> (Inl e, w')
               | (Inr _, w') \<Rightarrow>
                   download_keys dispatcher source_bucket source_prefix target_path
                     filter_extensions keys w'))))"

text \<open>
  \<open>for key in keys\<close> over the result of the \<open>ListS3Keys\<close> effect: a set gives its
  elements, a byte string its characters, \<open>None\<close> is not iterable.
\<close>

fun perform_download_s3_key_recursively :: performer where
  "perform_download_s3_key_recursively dispatcher
       (DownloadS3KeyRecursively source_bucket source_prefix target_path filter_extensions) w =
     (case dispatcher (ListS3Keys source_bucket (source_prefix @ ''/'')) w of
        (Inl e, w') \<Rightarrow> (Inl e, w')
      | (Inr keys, w') \<Rightarrow>
        (case keys of
           VNone \<Rightarrow> (Inl TypeError, w')
         | VBytes s \<Rightarrow>
             download_keys dispatcher source_bucket source_prefix target_path
               filter_extensions (map (\<lambda>c. [c]) s) w'
         | VSet ks \<Rightarrow>
             download_keys dispatcher source_bucket source_prefix target_path
               filter_extensions ks w'))"
| "perform_download_s3_key_recursively dispatcher _ w = (Inl AttributeError, w)"

text \<open>
  The paths of \<open>intent.source_path.walk()\<close> are those of the filesystem the performer
  starts on; \<open>isfile\<close> is asked when the path is reached.
\<close>

fun upload_paths ::
  "(intent \<Rightarrow> world \<Rightarrow> outcome) \<Rightarrow> string \<Rightarrow> string \<Rightarrow> string \<Rightarrow> string list
     \<Rightarrow> string list \<Rightarrow> world \<Rightarrow> outcome" where
  "upload_paths dispatcher source_path target_bucket target_key files [] w = (Inr VNone, w)"
| "upload_paths dispatcher source_path target_bucket target_key files (path # paths) w =
     (if basename path \<in> set files
      then (if isfile (local_fs w) path
            then (case dispatcher (UploadToS3 source_path target_bucket target_key path) w of
                    (Inl e, w') \<Rightarrow> (Inl e, w')
                  | (Inr _, w') \<Rightarrow>
                      upload_paths dispatcher source_path target_bucket target_key files
                        paths w')
            else upload_paths dispatcher source_path target_bucket target_key files paths w)
      else upload_paths dispatcher source_path target_bucket target_key files paths w)"

fun perform_upload_s3_key_recursively :: performer where
  "perform_upload_s3_key_recursively dispatcher
       (UploadToS3Recursively source_path target_bucket target_key files) w =
     upload_paths dispatcher source_path target_bucket target_key files
       (walk (local_fs w) source_path) w"
| "perform_upload_s3_key_recursively dispatcher _ w = (Inl AttributeError, w)"

section \<open>The fake performers\<close>

definition set_routing_rules :: "string \<Rightarrow> (string \<times> string) list \<Rightarrow> world \<Rightarrow> world" where
  "set_routing_rules name rules w =
     w\<lparr>fake := (fake w)\<lparr>routing_rules := AList.update name rules (routing_rules (fake w))\<rparr>\<rparr>"

definition set_fake_bucket :: "string \<Rightarrow> (string \<times> string) list \<Rightarrow> world \<Rightarrow> world" where
  "set_fake_bucket name b w =
     w\<lparr>fake := (fake w)\<lparr>s3_buckets := AList.update name b (s3_buckets (fake w))\<rparr>\<rparr>"

fun FakeAWS_perform_update_s3_routing_rule :: performer where
  "FakeAWS_perform_update_s3_routing_rule dispatcher
       (UpdateS3RoutingRule bucket prefix target_prefix) w =
     (case map_of (routing_rules (fake w)) bucket of
        None \<Rightarrow> (Inl KeyError, w)
      | Some rules \<Rightarrow>
        (case map_of rules prefix of
           None \<Rightarrow> (Inl KeyError, w)
         | Some old_target \<Rightarrow>
             (Inr (VBytes old_target),
              set_routing_rules bucket (AList.update prefix target_prefix rules) w)))"
| "FakeAWS_perform_update_s3_routing_rule dispatcher _ w = (Inl AttributeError, w)"

fun FakeAWS_perform_create_cloudfront_invalidation :: performer where
  "FakeAWS_perform_create_cloudfront_invalidation dispatcher intent w =
     (Inr VNone,
      w\<lparr>fake := (fake w)\<lparr>cloudfront_invalidations :=
           cloudfront_invalidations (fake w) @ [intent]\<rparr>\<rparr>)"

text \<open>
  \<open>del bucket[intent.prefix + key]\<close> for each key in turn, on the bucket's own
  dictionary: a missing key raises, and what was deleted before stays deleted.
\<close>

fun delete_keys ::
  "string \<Rightarrow> string list \<Rightarrow> (string \<times> string) list \<Rightarrow> error option \<times> (string \<times> string) list" where
  "delete_keys prefix [] bucket = (None, bucket)"
| "delete_keys prefix (key # keys) bucket =
     (if map_of bucket (prefix @ key) = None then (Some KeyError, bucket)
      else delete_keys prefix keys (AList.delete (prefix @ key) bucket))"

fun FakeAWS_perform_delete_s3_keys :: performer where
  "FakeAWS_perform_delete_s3_keys dispatcher (DeleteS3Keys bucket prefix keys) w =
     (case map_of (s3_buckets (fake w)) bucket of
        None \<Rightarrow> (Inl KeyError, w)
      | Some b \<Rightarrow>
        (case delete_keys prefix keys b of
           (Some e, b') \<Rightarrow> (Inl e, set_fake_bucket bucket b' w)
         | (None, b') \<Rightarrow> (Inr VNone, set_fake_bucket bucket b' w)))"
| "FakeAWS_perform_delete_s3_keys dispatcher _ w = (Inl AttributeError, w)"

text \<open>
  The copy loop reads and writes the dictionaries of the two buckets in place; with one
  bucket as source and destination a later key sees what an earlier one wrote.
\<close>

fun fake_copy_keys ::
  "string \<Rightarrow> string \<Rightarrow> string \<Rightarrow> string \<Rightarrow> string list \<Rightarrow> world \<Rightarrow> outcome" where
  "fake_copy_keys sb sp db dp [] w = (Inr VNone, w)"
| "fake_copy_keys sb sp db dp (key # keys) w =
     (case map_of (s3_buckets (fake w)) sb of
        None \<Rightarrow> (Inl KeyError, w)
      | Some source_bucket \<Rightarrow>
        (case map_of source_bucket (sp @ key) of
           None \<Rightarrow> (Inl KeyError, w)
         | Some c \<Rightarrow>
           (case map_of (s3_buckets (fake w)) db of
              None \<Rightarrow> (Inl KeyError, w)
            | Some destination_bucket \<Rightarrow>
                fake_copy_keys sb sp db dp keys
                  (set_fake_bucket db (AList.update (dp @ key) c destination_bucket) w))))"

fun FakeAWS_perform_copy_s3_keys :: performer where
  "FakeAWS_perform_copy_s3_keys dispatcher (CopyS3Keys source_bucket source_prefix
       destination_bucket destination_prefix keys) w =
     (case map_of (s3_buckets (fake w)) source_bucket of
        None \<Rightarrow> (Inl KeyError, w)
      | Some _ \<Rightarrow>
        (case map_of (s3_buckets (fake w)) destination_bucket of
           None \<Rightarrow> (Inl KeyError, w)
         | Some _ \<Rightarrow>
             fake_copy_keys source_bucket source_prefix destination_bucket
               destination_prefix keys w))"
| "FakeAWS_perform_copy_s3_keys dispatcher _ w = (Inl AttributeError, w)"

fun FakeAWS_perform_list_s3_keys :: performer where
  "FakeAWS_perform_list_s3_keys dispatcher (ListS3Keys bucket prefix) w =
     (case map_of (s3_buckets (fake w)) bucket of
        None \<Rightarrow> (Inl KeyError, w)
      | Some b \<Rightarrow>
          (Inr (VSet (remdups [drop (length prefix) key.
                                 key \<leftarrow> [k \<leftarrow> map fst b. startswith k prefix]])),
           w))"
| "FakeAWS_perform_list_s3_keys dispatcher _ w = (Inl AttributeError, w)"

fun FakeAWS_perform_download_s3_key :: performer where
  "FakeAWS_perform_download_s3_key dispatcher (DownloadS3Key source_bucket source_key target_path) w =
     (case map_of (s3_buckets (fake w)) source_bucket of
        None \<Rightarrow> (Inl KeyError, w)
      | Some bucket \<Rightarrow>
        (case map_of bucket source_key of
           None \<Rightarrow> (Inl KeyError, w)
         | Some c \<Rightarrow>
           (case setContent (local_fs w) target_path c of
              Inl e \<Rightarrow> (Inl e, w)
            | Inr fs' \<Rightarrow> (Inr VNone, w\<lparr>local_fs := fs'\<rparr>))))"
| "FakeAWS_perform_download_s3_key dispatcher _ w = (Inl AttributeError, w)"

fun FakeAWS_perform_upload_s3_key :: performer where
  "FakeAWS_perform_upload_s3_key dispatcher (UploadToS3 source_path target_bucket target_key file) w =
     (case map_of (s3_buckets (fake w)) target_bucket of
        None \<Rightarrow> (Inl KeyError, w)
      | Some bucket \<Rightarrow>
        (case read_file (local_fs w) file of
           Inl e \<Rightarrow> (Inl e, w)
         | Inr c \<Rightarrow>
             (Inr VNone,
              set_fake_bucket target_bucket
                (AList.update (target_key @ drop (length source_path) file) c bucket) w)))"
| "FakeAWS_perform_upload_s3_key dispatcher _ w = (Inl AttributeError, w)"

section \<open>The dispatchers\<close>

type_synonym dispatcher = "intent_type \<rightharpoonup> performer"

definition boto_dispatcher :: dispatcher where
  "boto_dispatcher =
     [T_UpdateS3RoutingRule \<mapsto> perform_update_s3_routing_rule,
      T_ListS3Keys \<mapsto> perform_list_s3_keys,
      T_DeleteS3Keys \<mapsto> perform_delete_s3_keys,
      T_CopyS3Keys \<mapsto> perform_copy_s3_keys,
      T_DownloadS3KeyRecursively \<mapsto> perform_download_s3_key_recursively,
      T_DownloadS3Key \<mapsto> perform_download_s3_key,
      T_UploadToS3Recursively \<mapsto> perform_upload_s3_key_recursively,
      T_UploadToS3 \<mapsto> perform_upload_s3_key,
      T_CreateCloudFrontInvalidation \<mapsto> perform_create_cloudfront_invalidation]"

definition FakeAWS_get_dispatcher :: dispatcher where
  "FakeAWS_get_dispatcher =
     [T_DownloadS3KeyRecursively \<mapsto> perform_download_s3_key_recursively,
      T_UploadToS3Recursively \<mapsto> perform_upload_s3_key_recursively,
      T_UpdateS3RoutingRule \<mapsto> FakeAWS_perform_update_s3_routing_rule,
      T_ListS3Keys \<mapsto> FakeAWS_perform_list_s3_keys,
      T_DeleteS3Keys \<mapsto> FakeAWS_perform_delete_s3_keys,
      T_CopyS3Keys \<mapsto> FakeAWS_perform_copy_s3_keys,
      T_DownloadS3Key \<mapsto> FakeAWS_perform_download_s3_key,
      T_UploadToS3 \<mapsto> FakeAWS_perform_upload_s3_key,
      T_CreateCloudFrontInvalidation \<mapsto> FakeAWS_perform_create_cloudfront_invalidation]"

text \<open>
  Modelled from the spec: \<open>dispatch(dispatcher, intent)\<close> of section 4.2, which in the
  program is \<open>sync_perform\<close> over a \<open>TypeDispatcher\<close> of the \<open>effect\<close> library and
  is not among the sources. It looks up the performer registered for the class of the
  intent and invokes it with the dispatcher and the intent; without a registered
  performer it fails with \<open>UnhandledIntent\<close>. The first argument bounds how deep
  performers may dispatch from inside performers; every dispatch is recorded in the
  history.
\<close>

fun dispatch :: "nat \<Rightarrow> dispatcher \<Rightarrow> intent \<Rightarrow> world \<Rightarrow> outcome" where
  "dispatch 0 d intent w = (Inl OutOfFuel, w)"
| "dispatch (Suc n) d intent w =
     (let w' = w\<lparr>dispatched := dispatched w @ [intent]\<rparr> in
      case d (type_of intent) of
        None \<Rightarrow> (Inl UnhandledIntent, w')
      | Some performer \<Rightarrow> performer (dispatch n d) intent w')"

section \<open>An example state\<close>

text \<open>
  A provider with one bucket \<open>docs\<close> (three routing rules, two of them for the prefix
  \<open>en/\<close>), a fake with the same bucket name, and a small local directory tree.
\<close>

definition example_rules :: "routing_rule list" where
  "example_rules =
     [\<lparr>key_prefix = ''en/'', replace_key_prefix = ''v1/''\<rparr>,
      \<lparr>key_prefix = ''de/'', replace_key_prefix = ''v1/''\<rparr>,
      \<lparr>key_prefix = ''en/'', replace_key_prefix = ''v0/''\<rparr>]"

definition example_bucket :: s3_bucket where
  "example_bucket =
     \<lparr>website = Some example_rules,
      objects = [(''foo/x.json'', (''X'', True)), (''foo/y.txt'', (''Y'', True)),
                 (''foo/sub/z.json'', (''Z'', True)), (''foo/foo/w.json'', (''W'', True))]\<rparr>"

definition example_fake_bucket :: "(string \<times> string) list" where
  "example_fake_bucket =
     [(''foo/x.json'', ''X''), (''foo/y.txt'', ''Y''), (''foo/sub/z.json'', ''Z''),
      (''foo/foo/w.json'', ''W'')]"

definition example_world :: world where
  "example_world =
     \<lparr>boto = \<lparr>buckets = [(''docs'', example_bucket)],
              distributions = [\<lparr>dist_id = ''D1'', cnames = [''docs.example'']\<rparr>],
              invalidation_requests = []\<rparr>,
      fake = \<lparr>routing_rules = [(''docs'', [(''en/'', ''v1/'')])],
              s3_buckets = [(''docs'', example_fake_bucket)],
              cloudfront_invalidations = []\<rparr>,
      local_fs = [(''/'', Dir), (''/src'', Dir), (''/src/a.txt'', File ''A''),
                  (''/src/b.txt'', File ''B''), (''/src/d'', Dir),
                  (''/src/d/c.log'', File ''C''), (''/src/empty'', File []),
                  (''/t'', Dir)],
      dispatched = []\<rparr>"


section \<open>Facts about lists and dictionaries\<close>

lemma filter_first_match:
  "\<forall>x \<in> set pre. \<not> P x \<Longrightarrow> P r \<Longrightarrow> filter P (pre @ r # post) = r # filter P post"
  by (induction pre) auto

lemma assign_first_split:
  "\<forall>x \<in> set pre. key_prefix x \<noteq> prefix \<Longrightarrow> key_prefix r = prefix \<Longrightarrow>
   assign_first prefix target (pre @ r # post) = pre @ r\<lparr>replace_key_prefix := target\<rparr> # post"
  by (induction pre) auto

lemma update_same_value: "map_of al k = Some v \<Longrightarrow> AList.update k v al = al"
  by (induction al) (auto split: if_splits)

lemma startswith_strip: "startswith k p \<Longrightarrow> p @ drop (length p) k = k"
  by (metis append_take_drop_id startswith_def)

lemma delete_keys_fails:
  "distinct pre \<Longrightarrow> \<forall>x \<in> set pre. map_of b (prefix @ x) \<noteq> None \<Longrightarrow>
   map_of b (prefix @ k) = None \<or> k \<in> set pre \<Longrightarrow>
   delete_keys prefix (pre @ k # post) b
     = (Some KeyError, [kv \<leftarrow> b. fst kv \<notin> set (map ((@) prefix) pre)])"
proof (induction pre arbitrary: b)
  case Nil
  then show ?case by simp
next
  case (Cons x pre)
  let ?b = "AList.delete (prefix @ x) b"
  have 1: "\<forall>y \<in> set pre. map_of ?b (prefix @ y) \<noteq> None"
    using Cons.prems by (auto simp: delete_conv')
  have 2: "map_of ?b (prefix @ k) = None \<or> k \<in> set pre"
    using Cons.prems by (auto simp: delete_conv')
  have "delete_keys prefix (pre @ k # post) ?b
        = (Some KeyError, [kv \<leftarrow> ?b. fst kv \<notin> set (map ((@) prefix) pre)])"
    using Cons.IH [OF _ 1 2] Cons.prems(1) by simp
  moreover have "[kv \<leftarrow> ?b. fst kv \<notin> set (map ((@) prefix) pre)]
                 = [kv \<leftarrow> b. fst kv \<notin> set (map ((@) prefix) (x # pre))]"
    by (auto simp: AList.delete_eq intro: filter_cong)
  moreover obtain y where "map_of b (prefix @ x) = Some y"
    using Cons.prems(2) by auto
  ultimately show ?case by simp
qed

lemma startswith_trans: "startswith q c \<Longrightarrow> startswith c p \<Longrightarrow> startswith q p"
proof -
  assume a: "startswith q c" "startswith c p"
  then have le: "min (length p) (length c) = length p"
    by (metis startswith_def length_take min.commute min.left_idem)
  have "take (length p) (take (length c) q) = take (length p) q"
    by (simp only: take_take le)
  then show ?thesis using a unfolding startswith_def by metis
qed

lemma walk_startswith: "q \<in> set (walk fs p) \<Longrightarrow> startswith q p"
proof (induction fs p arbitrary: q rule: walk.induct)
  case (1 fs p)
  from "1.prems" have "q = p \<or> (isdir fs p \<and> (\<exists>c \<in> set (children fs p). q \<in> set (walk fs c)))"
    by (subst (asm) walk.simps) (auto split: if_splits)
  then show ?case
  proof
    assume "q = p"
    then show ?thesis by (simp add: startswith_def)
  next
    assume "isdir fs p \<and> (\<exists>c \<in> set (children fs p). q \<in> set (walk fs c))"
    then obtain c where c: "isdir fs p" "c \<in> set (children fs p)" "q \<in> set (walk fs c)"
      by blast
    then have "startswith q c" using "1.IH" by blast
    moreover have "startswith c p"
      using c(2) dirname_prefix [of c] by (auto simp: children_def startswith_def)
    ultimately show ?thesis by (rule startswith_trans)
  qed
qed

lemma strip_inj:
  "startswith p sp \<Longrightarrow> startswith q sp \<Longrightarrow>
   tk @ drop (length sp) p = tk @ drop (length sp) q \<Longrightarrow> p = q"
  by (metis same_append_eq startswith_strip)

lemma foldl_upd_in:
  "inj_on k (set ps) \<Longrightarrow> p \<in> set ps \<Longrightarrow>
   foldl (\<lambda>m p. m(k p \<mapsto> v p)) m0 ps (k p) = Some (v p)"
proof (induction ps rule: rev_induct)
  case Nil
  then show ?case by simp
next
  case (snoc x xs)
  then show ?case by (cases "p = x") (auto simp: inj_on_def)
qed

lemma foldl_upd_notin:
  "key \<notin> k ` set ps \<Longrightarrow> foldl (\<lambda>m p. m(k p \<mapsto> v p)) m0 ps key = m0 key"
  by (induction ps rule: rev_induct) auto

lemma isfile_content:
  "isfile fs p \<Longrightarrow> map_of fs p = Some (File (projr (read_file fs p)))"
  by (auto simp: isfile_def read_file_def split: option.splits node.splits)

section \<open>The primitive performers of the fake, when they succeed\<close>

lemma fake_upload_ok:
  assumes "map_of (s3_buckets (fake w)) bucket = Some b"
      and "map_of (local_fs w) file = Some (File c)"
  shows "dispatch (Suc n) FakeAWS_get_dispatcher (UploadToS3 source_path bucket target_key file) w
           = (Inr VNone,
              set_fake_bucket bucket
                (AList.update (target_key @ drop (length source_path) file) c b)
                (w\<lparr>dispatched := dispatched w @ [UploadToS3 source_path bucket target_key file]\<rparr>))"
  using assms by (simp add: FakeAWS_get_dispatcher_def read_file_def)

lemma fake_download_ok:
  assumes "map_of (s3_buckets (fake w)) bucket = Some b"
      and "map_of b key = Some c"
      and "isdir (local_fs w) (dirname target_path)"
      and "\<not> isdir (local_fs w) target_path"
  shows "dispatch (Suc n) FakeAWS_get_dispatcher (DownloadS3Key bucket key target_path) w
           = (Inr VNone,
              w\<lparr>dispatched := dispatched w @ [DownloadS3Key bucket key target_path],
                local_fs := AList.update target_path (File c) (local_fs w)\<rparr>)"
  using assms
  by (simp add: FakeAWS_get_dispatcher_def setContent_def isdir_def
        split: option.splits node.splits)

section \<open>What stays in the filesystem\<close>








section \<open>The upload loop\<close>

text \<open>
  With either dispatcher and an existing target bucket the loop of
  \<open>perform_upload_s3_key_recursively\<close> runs to its end: it dispatches one
  \<open>UploadToS3\<close> per selected path, in order, and the objects of the bucket are those
  from before, overwritten key by key.
\<close>

lemma real_upload_ok:
  assumes "map_of (buckets (boto w)) bucket = Some b"
      and "read_file (local_fs w) file = Inr c"
  shows "dispatch (Suc n) boto_dispatcher (UploadToS3 source_path bucket target_key file) w
           = (Inr VNone,
              set_bucket bucket
                (b\<lparr>objects := AList.update (target_key @ drop (length source_path) file)
                                 (c, True) (objects b)\<rparr>)
                (w\<lparr>dispatched := dispatched w @ [UploadToS3 source_path bucket target_key file]\<rparr>))"
  using assms by (simp add: boto_dispatcher_def)

lemma isfile_read: "isfile fs p \<Longrightarrow> read_file fs p = Inr (projr (read_file fs p))"
  by (auto simp: isfile_def read_file_def split: option.splits node.splits)

lemma real_upload_paths:
  assumes "map_of (buckets (boto w)) tb = Some b"
  shows "\<exists>w' b'.
           upload_paths (dispatch (Suc n) boto_dispatcher) sp tb tk files ps w = (Inr VNone, w') \<and>
           dispatched w' = dispatched w
             @ map (UploadToS3 sp tb tk) [p \<leftarrow> ps. basename p \<in> set files \<and> isfile (local_fs w) p] \<and>
           local_fs w' = local_fs w \<and>
           map_of (buckets (boto w')) tb = Some b' \<and>
           map_of (objects b')
             = foldl (\<lambda>m p. m(tk @ drop (length sp) p \<mapsto> (projr (read_file (local_fs w) p), True)))
                 (map_of (objects b)) [p \<leftarrow> ps. basename p \<in> set files \<and> isfile (local_fs w) p]"
  using assms
proof (induction ps arbitrary: w b)
  case Nil
  then show ?case by simp
next
  case (Cons p ps)
  show ?case
  proof (cases "basename p \<in> set files \<and> isfile (local_fs w) p")
    case False
    then show ?thesis using Cons.IH [OF Cons.prems] by auto
  next
    case True
    let ?c = "projr (read_file (local_fs w) p)"
    let ?b1 = "b\<lparr>objects := AList.update (tk @ drop (length sp) p) (?c, True) (objects b)\<rparr>"
    let ?w1 = "set_bucket tb ?b1 (w\<lparr>dispatched := dispatched w @ [UploadToS3 sp tb tk p]\<rparr>)"
    have step: "dispatch (Suc n) boto_dispatcher (UploadToS3 sp tb tk p) w = (Inr VNone, ?w1)"
      using Cons.prems True isfile_read by (intro real_upload_ok) auto
    have b1: "map_of (buckets (boto ?w1)) tb = Some ?b1"
      by (simp add: set_bucket_def update_conv')
    have fs1: "local_fs ?w1 = local_fs w"
      by (simp add: set_bucket_def)
    have d1: "dispatched ?w1 = dispatched w @ [UploadToS3 sp tb tk p]"
      by (simp add: set_bucket_def)
    have o1: "map_of (objects ?b1) = (map_of (objects b))(tk @ drop (length sp) p \<mapsto> (?c, True))"
      by (simp add: update_conv')
    from Cons.IH [OF b1] obtain w' b' where
      r: "upload_paths (dispatch (Suc n) boto_dispatcher) sp tb tk files ps ?w1 = (Inr VNone, w')"
         "dispatched w' = dispatched ?w1
             @ map (UploadToS3 sp tb tk) [p \<leftarrow> ps. basename p \<in> set files \<and> isfile (local_fs ?w1) p]"
         "local_fs w' = local_fs ?w1"
         "map_of (buckets (boto w')) tb = Some b'"
         "map_of (objects b')
             = foldl (\<lambda>m p. m(tk @ drop (length sp) p \<mapsto> (projr (read_file (local_fs ?w1) p), True)))
                 (map_of (objects ?b1)) [p \<leftarrow> ps. basename p \<in> set files \<and> isfile (local_fs ?w1) p]"
      by blast
    have "upload_paths (dispatch (Suc n) boto_dispatcher) sp tb tk files (p # ps) w = (Inr VNone, w')"
      using True step r(1) by simp
    moreover have "dispatched w' = dispatched w
             @ map (UploadToS3 sp tb tk) [p \<leftarrow> p # ps. basename p \<in> set files \<and> isfile (local_fs w) p]"
      using True r(2) d1 fs1 by simp
    moreover have "local_fs w' = local_fs w"
      using r(3) fs1 by simp
    moreover have "map_of (objects b')
             = foldl (\<lambda>m p. m(tk @ drop (length sp) p \<mapsto> (projr (read_file (local_fs w) p), True)))
                 (map_of (objects b)) [p \<leftarrow> p # ps. basename p \<in> set files \<and> isfile (local_fs w) p]"
      using True r(5) fs1 o1 by simp
    ultimately show ?thesis using r(4) by blast
  qed
qed

lemma fake_upload_paths:
  assumes "map_of (s3_buckets (fake w)) tb = Some b"
  shows "\<exists>w' b'.
           upload_paths (dispatch (Suc n) FakeAWS_get_dispatcher) sp tb tk files ps w = (Inr VNone, w') \<and>
           dispatched w' = dispatched w
             @ map (UploadToS3 sp tb tk) [p \<leftarrow> ps. basename p \<in> set files \<and> isfile (local_fs w) p] \<and>
           local_fs w' = local_fs w \<and>
           map_of (s3_buckets (fake w')) tb = Some b' \<and>
           map_of b'
             = foldl (\<lambda>m p. m(tk @ drop (length sp) p \<mapsto> projr (read_file (local_fs w) p)))
                 (map_of b) [p \<leftarrow> ps. basename p \<in> set files \<and> isfile (local_fs w) p]"
  using assms
proof (induction ps arbitrary: w b)
  case Nil
  then show ?case by simp
next
  case (Cons p ps)
  show ?case
  proof (cases "basename p \<in> set files \<and> isfile (local_fs w) p")
    case False
    then show ?thesis using Cons.IH [OF Cons.prems] by auto
  next
    case True
    let ?c = "projr (read_file (local_fs w) p)"
    let ?b1 = "AList.update (tk @ drop (length sp) p) ?c b"
    let ?w1 = "set_fake_bucket tb ?b1 (w\<lparr>dispatched := dispatched w @ [UploadToS3 sp tb tk p]\<rparr>)"
    have step: "dispatch (Suc n) FakeAWS_get_dispatcher (UploadToS3 sp tb tk p) w = (Inr VNone, ?w1)"
      using Cons.prems True by (intro fake_upload_ok) (auto simp: isfile_def split: option.splits node.splits simp: read_file_def)
    have b1: "map_of (s3_buckets (fake ?w1)) tb = Some ?b1"
      by (simp add: set_fake_bucket_def update_conv')
    have fs1: "local_fs ?w1 = local_fs w"
      by (simp add: set_fake_bucket_def)
    have d1: "dispatched ?w1 = dispatched w @ [UploadToS3 sp tb tk p]"
      by (simp add: set_fake_bucket_def)
    have o1: "map_of ?b1 = (map_of b)(tk @ drop (length sp) p \<mapsto> ?c)"
      by (simp add: update_conv')
    from Cons.IH [OF b1] obtain w' b' where
      r: "upload_paths (dispatch (Suc n) FakeAWS_get_dispatcher) sp tb tk files ps ?w1 = (Inr VNone, w')"
         "dispatched w' = dispatched ?w1
             @ map (UploadToS3 sp tb tk) [p \<leftarrow> ps. basename p \<in> set files \<and> isfile (local_fs ?w1) p]"
         "local_fs w' = local_fs ?w1"
         "map_of (s3_buckets (fake w')) tb = Some b'"
         "map_of b'
             = foldl (\<lambda>m p. m(tk @ drop (length sp) p \<mapsto> projr (read_file (local_fs ?w1) p)))
                 (map_of ?b1) [p \<leftarrow> ps. basename p \<in> set files \<and> isfile (local_fs ?w1) p]"
      by blast
    have "upload_paths (dispatch (Suc n) FakeAWS_get_dispatcher) sp tb tk files (p # ps) w = (Inr VNone, w')"
      using True step r(1) by simp
    moreover have "dispatched w' = dispatched w
             @ map (UploadToS3 sp tb tk) [p \<leftarrow> p # ps. basename p \<in> set files \<and> isfile (local_fs w) p]"
      using True r(2) d1 fs1 by simp
    moreover have "local_fs w' = local_fs w"
      using r(3) fs1 by simp
    moreover have "map_of b'
             = foldl (\<lambda>m p. m(tk @ drop (length sp) p \<mapsto> projr (read_file (local_fs w) p)))
                 (map_of b) [p \<leftarrow> p # ps. basename p \<in> set files \<and> isfile (local_fs w) p]"
      using True r(5) fs1 o1 by simp
    ultimately show ?thesis using r(4) by blast
  qed
qed


section \<open>The download loop\<close>







section \<open>Dispatcher tables\<close>

text \<open>
  Claim C3. Both dispatcher tables register a performer for each of the nine intent
  classes (\<open>t\<close> ranges over all of them), and dispatching an intent whose class has no
  performer in a dispatcher \<open>d\<close> fails with \<open>UnhandledIntent\<close>: the failure is the
  result of the dispatch, and nothing but the history of dispatched intents changes.
\<close>

theorem dispatcher_tables_total:
  "boto_dispatcher t \<noteq> None \<and> FakeAWS_get_dispatcher t \<noteq> None \<and>
   (d (type_of i) = None \<longrightarrow>
      dispatch (Suc n) d i w = (Inl UnhandledIntent, w\<lparr>dispatched := dispatched w @ [i]\<rparr>))"
  by (cases t) (simp_all add: boto_dispatcher_def FakeAWS_get_dispatcher_def)

theorem dispatcher_tables_total_witness:
  "(boto_dispatcher(T_ListS3Keys := None)) (type_of (ListS3Keys ''docs'' ''foo/'')) = None \<and>
   dispatch (Suc 0) (boto_dispatcher(T_ListS3Keys := None)) (ListS3Keys ''docs'' ''foo/'')
       example_world
     = (Inl UnhandledIntent,
        example_world\<lparr>dispatched := dispatched example_world @ [ListS3Keys ''docs'' ''foo/'']\<rparr>)"
  using dispatcher_tables_total [of T_ListS3Keys "boto_dispatcher(T_ListS3Keys := None)"
      "ListS3Keys ''docs'' ''foo/''" 0 example_world]
  by simp



section \<open>Routing rules\<close>

text \<open>
  Claim C5. The real performer, on a bucket with a website configuration: when no rule of
  the configuration has the intent's prefix as condition key prefix, the dispatch fails
  (the selection of matching rules is empty and taking its first element raises
  \<open>IndexError\<close>, the failure the specification calls \<open>RuleNotFound\<close>), and nothing
  is written. When \<open>r\<close> is the first rule of the configuration with that prefix, it is
  \<open>r\<close> whose target is compared, returned and overwritten, whatever rules follow it.
\<close>

theorem real_update_first_match:
  assumes "map_of (buckets (boto w)) bucket = Some b" and "website b = Some config"
  shows "((\<forall>rule \<in> set config. key_prefix rule \<noteq> prefix) \<longrightarrow>
            dispatch (Suc n) boto_dispatcher (UpdateS3RoutingRule bucket prefix target_prefix) w
              = (Inl IndexError,
                 w\<lparr>dispatched := dispatched w @ [UpdateS3RoutingRule bucket prefix target_prefix]\<rparr>)) \<and>
         (config = pre @ r # post \<and> (\<forall>rule \<in> set pre. key_prefix rule \<noteq> prefix) \<and>
            key_prefix r = prefix \<longrightarrow>
            dispatch (Suc n) boto_dispatcher (UpdateS3RoutingRule bucket prefix target_prefix) w
              = (if replace_key_prefix r = target_prefix
                 then (Inr VNone,
                       w\<lparr>dispatched := dispatched w @ [UpdateS3RoutingRule bucket prefix target_prefix]\<rparr>)
                 else (Inr (VBytes (replace_key_prefix r)),
                       set_bucket bucket
                         (b\<lparr>website := Some (pre @ r\<lparr>replace_key_prefix := target_prefix\<rparr> # post)\<rparr>)
                         (w\<lparr>dispatched := dispatched w @ [UpdateS3RoutingRule bucket prefix target_prefix]\<rparr>))))"
proof (intro conjI impI)
  assume "\<forall>rule \<in> set config. key_prefix rule \<noteq> prefix"
  then have "[rule \<leftarrow> config. key_prefix rule = prefix] = []"
    by (simp add: filter_empty_conv)
  then show "dispatch (Suc n) boto_dispatcher (UpdateS3RoutingRule bucket prefix target_prefix) w
              = (Inl IndexError,
                 w\<lparr>dispatched := dispatched w @ [UpdateS3RoutingRule bucket prefix target_prefix]\<rparr>)"
    using assms by (simp add: boto_dispatcher_def)
next
  assume a: "config = pre @ r # post \<and> (\<forall>rule \<in> set pre. key_prefix rule \<noteq> prefix) \<and>
            key_prefix r = prefix"
  then have f: "[rule \<leftarrow> config. key_prefix rule = prefix]
                = r # [rule \<leftarrow> post. key_prefix rule = prefix]"
    using filter_first_match [of pre "\<lambda>rule. key_prefix rule = prefix" r post] by simp
  have g: "assign_first prefix target_prefix config
           = pre @ r\<lparr>replace_key_prefix := target_prefix\<rparr> # post"
    using a assign_first_split by simp
  show "dispatch (Suc n) boto_dispatcher (UpdateS3RoutingRule bucket prefix target_prefix) w
              = (if replace_key_prefix r = target_prefix
                 then (Inr VNone,
                       w\<lparr>dispatched := dispatched w @ [UpdateS3RoutingRule bucket prefix target_prefix]\<rparr>)
                 else (Inr (VBytes (replace_key_prefix r)),
                       set_bucket bucket
                         (b\<lparr>website := Some (pre @ r\<lparr>replace_key_prefix := target_prefix\<rparr> # post)\<rparr>)
                         (w\<lparr>dispatched := dispatched w @ [UpdateS3RoutingRule bucket prefix target_prefix]\<rparr>)))"
    using assms f g by (simp add: boto_dispatcher_def Let_def)
qed

theorem real_update_first_match_witness:
  "map_of (buckets (boto example_world)) ''docs'' = Some example_bucket \<and>
   website example_bucket = Some example_rules \<and>
   [rule \<leftarrow> example_rules. key_prefix rule = ''fr/''] = [] \<and>
   dispatch (Suc 0) boto_dispatcher (UpdateS3RoutingRule ''docs'' ''fr/'' ''v2/'') example_world
     = (Inl IndexError,
        example_world\<lparr>dispatched := [UpdateS3RoutingRule ''docs'' ''fr/'' ''v2/'']\<rparr>) \<and>
   example_rules = [] @ \<lparr>key_prefix = ''en/'', replace_key_prefix = ''v1/''\<rparr>
                     # [\<lparr>key_prefix = ''de/'', replace_key_prefix = ''v1/''\<rparr>,
                        \<lparr>key_prefix = ''en/'', replace_key_prefix = ''v0/''\<rparr>] \<and>
   dispatch (Suc 0) boto_dispatcher (UpdateS3RoutingRule ''docs'' ''en/'' ''v2/'') example_world
     = (Inr (VBytes ''v1/''),
        set_bucket ''docs''
          (example_bucket\<lparr>website :=
             Some [\<lparr>key_prefix = ''en/'', replace_key_prefix = ''v2/''\<rparr>,
                   \<lparr>key_prefix = ''de/'', replace_key_prefix = ''v1/''\<rparr>,
                   \<lparr>key_prefix = ''en/'', replace_key_prefix = ''v0/''\<rparr>]\<rparr>)
          (example_world\<lparr>dispatched := [UpdateS3RoutingRule ''docs'' ''en/'' ''v2/'']\<rparr>))"
proof -
  have b: "map_of (buckets (boto example_world)) ''docs'' = Some example_bucket"
    by (simp add: example_world_def)
  have c: "website example_bucket = Some example_rules"
    by (simp add: example_bucket_def)
  have none: "\<forall>rule \<in> set example_rules. key_prefix rule \<noteq> ''fr/''"
    by (simp add: example_rules_def)
  have first: "example_rules = [] @ \<lparr>key_prefix = ''en/'', replace_key_prefix = ''v1/''\<rparr>
                     # [\<lparr>key_prefix = ''de/'', replace_key_prefix = ''v1/''\<rparr>,
                        \<lparr>key_prefix = ''en/'', replace_key_prefix = ''v0/''\<rparr>]"
    by (simp add: example_rules_def)
  have d: "dispatched example_world = []"
    by (simp add: example_world_def)
  have none': "[rule \<leftarrow> example_rules. key_prefix rule = ''fr/''] = []"
    by (simp add: example_rules_def)
  show ?thesis
    using b c none none' first d
      real_update_first_match [OF b c, where prefix = "''fr/''" and n = 0
        and target_prefix = "''v2/''"]
      real_update_first_match [OF b c, where prefix = "''en/''" and n = 0
        and target_prefix = "''v2/''" and pre = "[]"
        and r = "\<lparr>key_prefix = ''en/'', replace_key_prefix = ''v1/''\<rparr>"
        and post = "[\<lparr>key_prefix = ''de/'', replace_key_prefix = ''v1/''\<rparr>,
                     \<lparr>key_prefix = ''en/'', replace_key_prefix = ''v0/''\<rparr>]"]
    by simp
qed

text \<open>
  Claim C6. With the fake dispatcher, when the intent's bucket is not in
  \<open>routing_rules\<close>, or its prefix is not in \<open>routing_rules[bucket]\<close>, the dispatch
  fails with \<open>KeyError\<close>, which is the result of the dispatch, and the fake (routing
  rules, buckets, invalidations) is as before.
\<close>

theorem fake_update_missing_rule:
  assumes "map_of (routing_rules (fake w)) bucket = None \<or>
           (\<exists>rules. map_of (routing_rules (fake w)) bucket = Some rules \<and>
                    map_of rules prefix = None)"
  shows "dispatch (Suc n) FakeAWS_get_dispatcher (UpdateS3RoutingRule bucket prefix target_prefix) w
           = (Inl KeyError,
              w\<lparr>dispatched := dispatched w @ [UpdateS3RoutingRule bucket prefix target_prefix]\<rparr>) \<and>
         fake (snd (dispatch (Suc n) FakeAWS_get_dispatcher
                      (UpdateS3RoutingRule bucket prefix target_prefix) w)) = fake w"
  using assms by (auto simp: FakeAWS_get_dispatcher_def)

theorem fake_update_missing_rule_witness:
  "map_of (routing_rules (fake example_world)) ''docs'' = Some [(''en/'', ''v1/'')] \<and>
   map_of [(''en/'', ''v1/'')] ''fr/'' = None \<and>
   dispatch (Suc 0) FakeAWS_get_dispatcher (UpdateS3RoutingRule ''docs'' ''fr/'' ''v2/'')
       example_world
     = (Inl KeyError,
        example_world\<lparr>dispatched := dispatched example_world
                         @ [UpdateS3RoutingRule ''docs'' ''fr/'' ''v2/'']\<rparr>) \<and>
   map_of (routing_rules (fake example_world)) ''blog'' = None \<and>
   fake (snd (dispatch (Suc 0) FakeAWS_get_dispatcher
                (UpdateS3RoutingRule ''blog'' ''en/'' ''v2/'') example_world))
     = fake example_world"
proof -
  have a: "map_of (routing_rules (fake example_world)) ''docs'' = Some [(''en/'', ''v1/'')]"
    by (simp add: example_world_def)
  have b: "map_of [(''en/'', ''v1/'')] ''fr/'' = None"
    by simp
  have c: "map_of (routing_rules (fake example_world)) ''blog'' = None"
    by (simp add: example_world_def)
  from a b have h1: "map_of (routing_rules (fake example_world)) ''docs'' = None \<or>
           (\<exists>rules. map_of (routing_rules (fake example_world)) ''docs'' = Some rules \<and>
                    map_of rules ''fr/'' = None)"
    by blast
  from c have h2: "map_of (routing_rules (fake example_world)) ''blog'' = None \<or>
           (\<exists>rules. map_of (routing_rules (fake example_world)) ''blog'' = Some rules \<and>
                    map_of rules ''en/'' = None)"
    by blast
  show ?thesis
    using a b c fake_update_missing_rule [OF h1, of 0 "''v2/''"]
      fake_update_missing_rule [OF h2, of 0 "''v2/''"]
    by simp
qed

text \<open>
  The case of claim C2, an \<open>UpdateS3RoutingRule\<close> whose target is the stored one. The
  real performer returns \<open>None\<close> and writes nothing.
\<close>

lemma real_update_same_target:
  assumes "map_of (buckets (boto w)) bucket = Some b" and "website b = Some config"
      and "[rule \<leftarrow> config. key_prefix rule = prefix] = rule # rest"
      and "replace_key_prefix rule = target_prefix"
  shows "dispatch (Suc n) boto_dispatcher (UpdateS3RoutingRule bucket prefix target_prefix) w
           = (Inr VNone,
              w\<lparr>dispatched := dispatched w @ [UpdateS3RoutingRule bucket prefix target_prefix]\<rparr>)"
  using assms by (simp add: boto_dispatcher_def)

text \<open>The fake performer leaves its state as it is, too, but returns the stored target.\<close>

lemma fake_update_same_target:
  assumes "map_of (routing_rules (fake w)) bucket = Some rules"
      and "map_of rules prefix = Some target_prefix"
  shows "dispatch (Suc n) FakeAWS_get_dispatcher (UpdateS3RoutingRule bucket prefix target_prefix) w
           = (Inr (VBytes target_prefix),
              w\<lparr>dispatched := dispatched w @ [UpdateS3RoutingRule bucket prefix target_prefix]\<rparr>)"
  using assms
  by (simp add: FakeAWS_get_dispatcher_def set_routing_rules_def update_same_value)

text \<open>
  Claim C2, at the routing rule \<open>en/\<close> of bucket \<open>docs\<close>, whose stored target is
  \<open>v1/\<close> in the provider and in the fake alike: asked to set the target to \<open>v1/\<close>,
  the fake dispatcher returns \<open>v1/\<close>, the real dispatcher returns \<open>None\<close>.
\<close>

theorem fake_update_same_target_returns_target:
  "dispatch (Suc 0) FakeAWS_get_dispatcher (UpdateS3RoutingRule ''docs'' ''en/'' ''v1/'')
       example_world
     = (Inr (VBytes ''v1/''),
        example_world\<lparr>dispatched := [UpdateS3RoutingRule ''docs'' ''en/'' ''v1/'']\<rparr>) \<and>
   dispatch (Suc 0) boto_dispatcher (UpdateS3RoutingRule ''docs'' ''en/'' ''v1/'')
       example_world
     = (Inr VNone,
        example_world\<lparr>dispatched := [UpdateS3RoutingRule ''docs'' ''en/'' ''v1/'']\<rparr>)"
  by (simp add: FakeAWS_get_dispatcher_def boto_dispatcher_def example_world_def example_bucket_def
        example_rules_def example_fake_bucket_def set_routing_rules_def)



section \<open>Listing keys\<close>

text \<open>
  Claim C4, as stated, at the bucket \<open>docs\<close> of the fake and the prefix \<open>foo/\<close>: the
  stored key \<open>foo/foo/w.json\<close> is listed as \<open>foo/w.json\<close>, a returned name that has
  the prefix as its leading substring.
\<close>

theorem list_keys_prefix_counterexample:
  "dispatch (Suc 0) FakeAWS_get_dispatcher (ListS3Keys ''docs'' ''foo/'') example_world
     = (Inr (VSet [''x.json'', ''y.txt'', ''sub/z.json'', ''foo/w.json'']),
        example_world\<lparr>dispatched := [ListS3Keys ''docs'' ''foo/'']\<rparr>) \<and>
   ''foo/w.json'' \<in> set [''x.json'', ''y.txt'', ''sub/z.json'', ''foo/w.json''] \<and>
   startswith ''foo/w.json'' ''foo/''"
  by (simp add: FakeAWS_get_dispatcher_def example_world_def example_fake_bucket_def
        startswith_def)

text \<open>
  Claim C4, amended. For a bucket that exists, \<open>ListS3Keys\<close> returns, with the fake and
  with the real dispatcher, a set (a duplicate-free list) that holds exactly the names
  \<open>name\<close> for which \<open>prefix + name\<close> is a stored key: each returned name is a stored
  key that starts with the prefix, with the prefix removed once.
\<close>

theorem list_keys_strips_prefix_once:
  "(map_of (s3_buckets (fake w)) bucket = Some fb \<longrightarrow>
      (\<exists>names. dispatch (Suc n) FakeAWS_get_dispatcher (ListS3Keys bucket prefix) w
                 = (Inr (VSet names), w\<lparr>dispatched := dispatched w @ [ListS3Keys bucket prefix]\<rparr>) \<and>
               distinct names \<and>
               set names = {name. prefix @ name \<in> fst ` set fb})) \<and>
   (map_of (buckets (boto w)) bucket = Some rb \<longrightarrow>
      (\<exists>names. dispatch (Suc n) boto_dispatcher (ListS3Keys bucket prefix) w
                 = (Inr (VSet names), w\<lparr>dispatched := dispatched w @ [ListS3Keys bucket prefix]\<rparr>) \<and>
               distinct names \<and>
               set names = {name. prefix @ name \<in> fst ` set (objects rb)}))"
proof -
  have eq: "\<And>ks. (\<lambda>k. drop (length prefix) k) ` {k \<in> ks. startswith k prefix}
             = {name. prefix @ name \<in> ks}"
  proof (intro set_eqI iffI)
    fix ks x assume "x \<in> (\<lambda>k. drop (length prefix) k) ` {k \<in> ks. startswith k prefix}"
    then obtain k where "k \<in> ks" "startswith k prefix" "x = drop (length prefix) k" by auto
    then show "x \<in> {name. prefix @ name \<in> ks}" using startswith_strip by simp
  next
    fix ks x assume "x \<in> {name. prefix @ name \<in> ks}"
    then have "prefix @ x \<in> ks" "startswith (prefix @ x) prefix"
      "x = drop (length prefix) (prefix @ x)"
      by (simp_all add: startswith_def)
    then show "x \<in> (\<lambda>k. drop (length prefix) k) ` {k \<in> ks. startswith k prefix}" by blast
  qed
  show ?thesis
    using eq [of "fst ` set fb"] eq [of "fst ` set (objects rb)"]
    by (auto simp: FakeAWS_get_dispatcher_def boto_dispatcher_def)
qed


theorem list_keys_strips_prefix_once_witness:
  "map_of (s3_buckets (fake example_world)) ''docs'' = Some example_fake_bucket \<and>
   map_of (buckets (boto example_world)) ''docs'' = Some example_bucket \<and>
   (\<exists>names. dispatch (Suc 0) FakeAWS_get_dispatcher (ListS3Keys ''docs'' ''foo/'') example_world
              = (Inr (VSet names),
                 example_world\<lparr>dispatched := dispatched example_world
                                  @ [ListS3Keys ''docs'' ''foo/'']\<rparr>) \<and>
            distinct names \<and>
            set names = {name. ''foo/'' @ name \<in> fst ` set example_fake_bucket}) \<and>
   (\<exists>names. dispatch (Suc 0) boto_dispatcher (ListS3Keys ''docs'' ''foo/'') example_world
              = (Inr (VSet names),
                 example_world\<lparr>dispatched := dispatched example_world
                                  @ [ListS3Keys ''docs'' ''foo/'']\<rparr>) \<and>
            distinct names \<and>
            set names = {name. ''foo/'' @ name \<in> fst ` set (objects example_bucket)})"
proof -
  have f: "map_of (s3_buckets (fake example_world)) ''docs'' = Some example_fake_bucket"
    by (simp add: example_world_def)
  have r: "map_of (buckets (boto example_world)) ''docs'' = Some example_bucket"
    by (simp add: example_world_def)
  show ?thesis
    using f r list_keys_strips_prefix_once [of example_world "''docs''" example_fake_bucket 0
        "''foo/''" example_bucket]
    by blast
qed

section \<open>Upload and download with the fake\<close>

text \<open>
  Claim C7. With the fake dispatcher, for a bucket of the fake, a regular local file of
  any content (the empty one included) and a target path that can be written (its parent
  is a directory, it is not one itself): the \<open>UploadToS3\<close> succeeds, the
  \<open>DownloadS3Key\<close> for the same bucket and the key the upload stored under succeeds in
  the state the upload left, and the target file then holds exactly the bytes of the
  source file.
\<close>

theorem upload_download_roundtrip:
  assumes "map_of (s3_buckets (fake w)) bucket = Some b"
      and "map_of (local_fs w) file = Some (File content)"
      and "isdir (local_fs w) (dirname target_path)"
      and "\<not> isdir (local_fs w) target_path"
  shows "\<exists>w1 w2.
           dispatch (Suc n) FakeAWS_get_dispatcher
               (UploadToS3 source_path bucket target_key file) w = (Inr VNone, w1) \<and>
           dispatch (Suc m) FakeAWS_get_dispatcher
               (DownloadS3Key bucket (target_key @ drop (length source_path) file) target_path) w1
             = (Inr VNone, w2) \<and>
           read_file (local_fs w2) target_path = Inr content"
proof -
  let ?key = "target_key @ drop (length source_path) file"
  let ?b = "AList.update ?key content b"
  let ?w1 = "set_fake_bucket bucket ?b
               (w\<lparr>dispatched := dispatched w @ [UploadToS3 source_path bucket target_key file]\<rparr>)"
  have up: "dispatch (Suc n) FakeAWS_get_dispatcher
              (UploadToS3 source_path bucket target_key file) w = (Inr VNone, ?w1)"
    using assms(1,2) by (rule fake_upload_ok)
  have b1: "map_of (s3_buckets (fake ?w1)) bucket = Some ?b"
    by (simp add: set_fake_bucket_def update_conv')
  have k1: "map_of ?b ?key = Some content"
    by (simp add: update_conv')
  have fs1: "local_fs ?w1 = local_fs w"
    by (simp add: set_fake_bucket_def)
  let ?w2 = "?w1\<lparr>dispatched := dispatched ?w1 @ [DownloadS3Key bucket ?key target_path],
                 local_fs := AList.update target_path (File content) (local_fs ?w1)\<rparr>"
  have down: "dispatch (Suc m) FakeAWS_get_dispatcher (DownloadS3Key bucket ?key target_path) ?w1
              = (Inr VNone, ?w2)"
    using b1 k1 assms(3,4) fs1 by (intro fake_download_ok) simp_all
  have "read_file (local_fs ?w2) target_path = Inr content"
    by (simp add: read_file_def update_conv')
  with up down show ?thesis by blast
qed

theorem upload_download_roundtrip_witness:
  "map_of (s3_buckets (fake example_world)) ''docs'' = Some example_fake_bucket \<and>
   map_of (local_fs example_world) ''/src/empty'' = Some (File []) \<and>
   isdir (local_fs example_world) (dirname ''/t/copy'') \<and>
   \<not> isdir (local_fs example_world) ''/t/copy'' \<and>
   (\<exists>w1 w2.
      dispatch (Suc 0) FakeAWS_get_dispatcher
          (UploadToS3 ''/src'' ''docs'' ''up'' ''/src/empty'') example_world = (Inr VNone, w1) \<and>
      dispatch (Suc 0) FakeAWS_get_dispatcher
          (DownloadS3Key ''docs'' (''up'' @ drop (length ''/src'') ''/src/empty'') ''/t/copy'') w1
        = (Inr VNone, w2) \<and>
      read_file (local_fs w2) ''/t/copy'' = Inr [])"
proof -
  have a: "map_of (s3_buckets (fake example_world)) ''docs'' = Some example_fake_bucket"
    by (simp add: example_world_def)
  have b: "map_of (local_fs example_world) ''/src/empty'' = Some (File [])"
    by (simp add: example_world_def)
  have c: "isdir (local_fs example_world) (dirname ''/t/copy'')"
    by (simp add: example_world_def isdir_def dirname_def rstrip_slash_def)
  have d: "\<not> isdir (local_fs example_world) ''/t/copy''"
    by (simp add: example_world_def isdir_def)
  show ?thesis
    using a b c d upload_download_roundtrip [OF a b c d, of 0 "''/src''" "''up''" 0]
    by blast
qed

section \<open>Deleting keys with the fake\<close>

text \<open>
  Claim C10, as stated, at the key list \<open>x.json, missing, x.json\<close> under the prefix
  \<open>foo/\<close>: the dispatch fails at \<open>missing\<close>, and the key after it, \<open>x.json\<close>, is
  not untouched: it is the key deleted first, and its entry is gone.
\<close>

theorem fake_delete_later_duplicate_counterexample:
  "dispatch (Suc 0) FakeAWS_get_dispatcher
       (DeleteS3Keys ''docs'' ''foo/'' [''x.json'', ''missing'', ''x.json'']) example_world
     = (Inl KeyError,
        set_fake_bucket ''docs''
          [(''foo/y.txt'', ''Y''), (''foo/sub/z.json'', ''Z''), (''foo/foo/w.json'', ''W'')]
          (example_world\<lparr>dispatched :=
             [DeleteS3Keys ''docs'' ''foo/'' [''x.json'', ''missing'', ''x.json'']]\<rparr>)) \<and>
   map_of (s3_buckets (fake example_world)) ''docs'' = Some example_fake_bucket \<and>
   [''x.json'', ''missing'', ''x.json''] ! 2 = ''x.json'' \<and>
   map_of example_fake_bucket (''foo/'' @ ''x.json'') = Some ''X'' \<and>
   map_of [(''foo/y.txt'', ''Y''), (''foo/sub/z.json'', ''Z''), (''foo/foo/w.json'', ''W'')]
       (''foo/'' @ ''x.json'') = None"
  by (simp add: FakeAWS_get_dispatcher_def example_world_def example_fake_bucket_def
        AList.delete_eq)

text \<open>
  Claim C10, amended. The fake performer deletes \<open>prefix + key\<close> in list order. When
  the keys \<open>pre\<close> before \<open>k\<close> can all be deleted (they are distinct and present) and
  \<open>prefix + k\<close> is then absent (it never was there, or it is one of \<open>pre\<close>), the
  dispatch fails with \<open>KeyError\<close>, and in the bucket it leaves every key of \<open>pre\<close>
  is removed and every other entry is as before, in particular that of every later key
  that is not also one of \<open>pre\<close>: nothing is rolled back.
\<close>

theorem fake_delete_partial:
  assumes "map_of (s3_buckets (fake w)) bucket = Some b"
      and "distinct pre"
      and "\<forall>x \<in> set pre. map_of b (prefix @ x) \<noteq> None"
      and "map_of b (prefix @ k) = None \<or> k \<in> set pre"
  shows "\<exists>b'. dispatch (Suc n) FakeAWS_get_dispatcher
                  (DeleteS3Keys bucket prefix (pre @ k # post)) w
                = (Inl KeyError,
                   set_fake_bucket bucket b'
                     (w\<lparr>dispatched := dispatched w
                          @ [DeleteS3Keys bucket prefix (pre @ k # post)]\<rparr>)) \<and>
              (\<forall>x \<in> set pre. map_of b' (prefix @ x) = None) \<and>
              (\<forall>key. key \<notin> set (map ((@) prefix) pre) \<longrightarrow> map_of b' key = map_of b key) \<and>
              (\<forall>x \<in> set post. x \<notin> set pre \<longrightarrow> map_of b' (prefix @ x) = map_of b (prefix @ x))"
proof -
  let ?b = "[kv \<leftarrow> b. fst kv \<notin> set (map ((@) prefix) pre)]"
  have "dispatch (Suc n) FakeAWS_get_dispatcher (DeleteS3Keys bucket prefix (pre @ k # post)) w
        = (Inl KeyError,
           set_fake_bucket bucket ?b
             (w\<lparr>dispatched := dispatched w @ [DeleteS3Keys bucket prefix (pre @ k # post)]\<rparr>))"
    using assms(1) delete_keys_fails [OF assms(2,3,4)]
    by (simp add: FakeAWS_get_dispatcher_def)
  moreover have m: "\<And>key. map_of ?b key
                      = (if key \<in> set (map ((@) prefix) pre) then None else map_of b key)"
    by (induction b) auto
  ultimately show ?thesis by (intro exI [of _ ?b]) auto
qed

theorem fake_delete_partial_witness:
  "map_of (s3_buckets (fake example_world)) ''docs'' = Some example_fake_bucket \<and>
   distinct [''x.json'', ''y.txt''] \<and>
   map_of example_fake_bucket (''foo/'' @ ''x.json'') = Some ''X'' \<and>
   map_of example_fake_bucket (''foo/'' @ ''y.txt'') = Some ''Y'' \<and>
   (map_of example_fake_bucket (''foo/'' @ ''missing'') = None
      \<or> ''missing'' \<in> set [''x.json'', ''y.txt'']) \<and>
   (\<exists>b'. dispatch (Suc 0) FakeAWS_get_dispatcher
             (DeleteS3Keys ''docs'' ''foo/'' ([''x.json'', ''y.txt''] @ ''missing'' # [''sub/z.json'']))
             example_world
           = (Inl KeyError,
              set_fake_bucket ''docs'' b'
                (example_world\<lparr>dispatched := dispatched example_world
                   @ [DeleteS3Keys ''docs'' ''foo/''
                        ([''x.json'', ''y.txt''] @ ''missing'' # [''sub/z.json''])]\<rparr>)) \<and>
         (\<forall>x \<in> set [''x.json'', ''y.txt'']. map_of b' (''foo/'' @ x) = None) \<and>
         (\<forall>key. key \<notin> set (map ((@) ''foo/'') [''x.json'', ''y.txt''])
                  \<longrightarrow> map_of b' key = map_of example_fake_bucket key) \<and>
         (\<forall>x \<in> set [''sub/z.json'']. x \<notin> set [''x.json'', ''y.txt'']
                  \<longrightarrow> map_of b' (''foo/'' @ x) = map_of example_fake_bucket (''foo/'' @ x)))"
proof -
  have a: "map_of (s3_buckets (fake example_world)) ''docs'' = Some example_fake_bucket"
    by (simp add: example_world_def)
  have b: "distinct [''x.json'', ''y.txt'']"
    by simp
  have c: "\<forall>x \<in> set [''x.json'', ''y.txt'']. map_of example_fake_bucket (''foo/'' @ x) \<noteq> None"
    by (simp add: example_fake_bucket_def)
  have d: "map_of example_fake_bucket (''foo/'' @ ''missing'') = None
             \<or> ''missing'' \<in> set [''x.json'', ''y.txt'']"
    by (simp add: example_fake_bucket_def)
  have e: "map_of example_fake_bucket (''foo/'' @ ''x.json'') = Some ''X'' \<and>
           map_of example_fake_bucket (''foo/'' @ ''y.txt'') = Some ''Y''"
    by (simp add: example_fake_bucket_def)
  show ?thesis
    using a b d e fake_delete_partial [OF a b c d, of 0 "[''sub/z.json'']"]
    by blast
qed


section \<open>Recursive upload\<close>

text \<open>
  Claim C8. Let \<open>ups\<close> be the paths of the walk of \<open>source_path\<close> that are regular
  files and whose base name is in \<open>files\<close>. With the real dispatcher and with the fake
  dispatcher, when the target bucket exists, dispatching \<open>UploadToS3Recursively\<close>
  succeeds; the intents dispatched during it are the composite intent itself and then one
  \<open>UploadToS3\<close> for each path of \<open>ups\<close>, and no other; afterwards the bucket holds
  the content of each such file at the key \<open>target_key + path[len(source_path):]\<close>
  (public, with the real performer), and every other key of the bucket is as before. The
  directories and the files with other base names of the walk cause neither an upload
  nor a failure.
\<close>

theorem upload_recursively_selected_files:
  "let ups = [p \<leftarrow> walk (local_fs w) sp. basename p \<in> set files \<and> isfile (local_fs w) p];
       key = (\<lambda>p. tk @ drop (length sp) p)
   in (map_of (buckets (boto w)) tb = Some rb \<longrightarrow>
         (\<exists>w' b'.
            dispatch (Suc (Suc n)) boto_dispatcher (UploadToS3Recursively sp tb tk files) w
              = (Inr VNone, w') \<and>
            dispatched w' = dispatched w
              @ UploadToS3Recursively sp tb tk files # map (UploadToS3 sp tb tk) ups \<and>
            map_of (buckets (boto w')) tb = Some b' \<and>
            (\<forall>p \<in> set ups. \<exists>c. map_of (local_fs w) p = Some (File c) \<and>
                                map_of (objects b') (key p) = Some (c, True)) \<and>
            (\<forall>k. k \<notin> key ` set ups \<longrightarrow> map_of (objects b') k = map_of (objects rb) k))) \<and>
      (map_of (s3_buckets (fake w)) tb = Some fb \<longrightarrow>
         (\<exists>w' b'.
            dispatch (Suc (Suc n)) FakeAWS_get_dispatcher (UploadToS3Recursively sp tb tk files) w
              = (Inr VNone, w') \<and>
            dispatched w' = dispatched w
              @ UploadToS3Recursively sp tb tk files # map (UploadToS3 sp tb tk) ups \<and>
            map_of (s3_buckets (fake w')) tb = Some b' \<and>
            (\<forall>p \<in> set ups. \<exists>c. map_of (local_fs w) p = Some (File c) \<and>
                                map_of b' (key p) = Some c) \<and>
            (\<forall>k. k \<notin> key ` set ups \<longrightarrow> map_of b' k = map_of fb k)))"
proof -
  let ?i = "UploadToS3Recursively sp tb tk files"
  let ?w0 = "w\<lparr>dispatched := dispatched w @ [?i]\<rparr>"
  let ?ups = "[p \<leftarrow> walk (local_fs w) sp. basename p \<in> set files \<and> isfile (local_fs w) p]"
  let ?key = "\<lambda>p. tk @ drop (length sp) p"
  have inj: "inj_on ?key (set ?ups)"
    by (auto simp: inj_on_def dest!: walk_startswith intro: strip_inj)
  have content: "\<And>p. p \<in> set ?ups \<Longrightarrow>
                   map_of (local_fs w) p = Some (File (projr (read_file (local_fs w) p)))"
    by (simp add: isfile_content)
  have real: "\<exists>w' b'.
            dispatch (Suc (Suc n)) boto_dispatcher ?i w = (Inr VNone, w') \<and>
            dispatched w' = dispatched w @ ?i # map (UploadToS3 sp tb tk) ?ups \<and>
            map_of (buckets (boto w')) tb = Some b' \<and>
            (\<forall>p \<in> set ?ups. \<exists>c. map_of (local_fs w) p = Some (File c) \<and>
                                map_of (objects b') (?key p) = Some (c, True)) \<and>
            (\<forall>k. k \<notin> ?key ` set ?ups \<longrightarrow> map_of (objects b') k = map_of (objects rb) k)"
    if b: "map_of (buckets (boto w)) tb = Some rb"
  proof -
    have b0: "map_of (buckets (boto ?w0)) tb = Some rb" using b by simp
    from real_upload_paths [OF b0, of n sp tk files "walk (local_fs w) sp"]
    obtain w' b' where
      r: "upload_paths (dispatch (Suc n) boto_dispatcher) sp tb tk files (walk (local_fs w) sp) ?w0
            = (Inr VNone, w')"
         "dispatched w' = dispatched ?w0 @ map (UploadToS3 sp tb tk) ?ups"
         "map_of (buckets (boto w')) tb = Some b'"
         "map_of (objects b')
            = foldl (\<lambda>m p. m(?key p \<mapsto> (projr (read_file (local_fs w) p), True)))
                (map_of (objects rb)) ?ups"
      by auto
    have "dispatch (Suc (Suc n)) boto_dispatcher ?i w = (Inr VNone, w')"
      using r(1) by (simp add: boto_dispatcher_def)
    moreover have "dispatched w' = dispatched w @ ?i # map (UploadToS3 sp tb tk) ?ups"
      using r(2) by simp
    moreover have "\<forall>p \<in> set ?ups. \<exists>c. map_of (local_fs w) p = Some (File c) \<and>
                                map_of (objects b') (?key p) = Some (c, True)"
    proof
      fix p assume p: "p \<in> set ?ups"
      have "map_of (objects b') (?key p) = Some (projr (read_file (local_fs w) p), True)"
        unfolding r(4) using inj p by (rule foldl_upd_in)
      then show "\<exists>c. map_of (local_fs w) p = Some (File c) \<and>
                    map_of (objects b') (?key p) = Some (c, True)"
        using content [OF p] by blast
    qed
    moreover have "\<forall>k. k \<notin> ?key ` set ?ups \<longrightarrow> map_of (objects b') k = map_of (objects rb) k"
      unfolding r(4) by (simp add: foldl_upd_notin)
    ultimately show ?thesis using r(3) by blast
  qed
  have fake: "\<exists>w' b'.
            dispatch (Suc (Suc n)) FakeAWS_get_dispatcher ?i w = (Inr VNone, w') \<and>
            dispatched w' = dispatched w @ ?i # map (UploadToS3 sp tb tk) ?ups \<and>
            map_of (s3_buckets (fake w')) tb = Some b' \<and>
            (\<forall>p \<in> set ?ups. \<exists>c. map_of (local_fs w) p = Some (File c) \<and>
                                map_of b' (?key p) = Some c) \<and>
            (\<forall>k. k \<notin> ?key ` set ?ups \<longrightarrow> map_of b' k = map_of fb k)"
    if b: "map_of (s3_buckets (fake w)) tb = Some fb"
  proof -
    have b0: "map_of (s3_buckets (fake ?w0)) tb = Some fb" using b by simp
    from fake_upload_paths [OF b0, of n sp tk files "walk (local_fs w) sp"]
    obtain w' b' where
      r: "upload_paths (dispatch (Suc n) FakeAWS_get_dispatcher) sp tb tk files
            (walk (local_fs w) sp) ?w0 = (Inr VNone, w')"
         "dispatched w' = dispatched ?w0 @ map (UploadToS3 sp tb tk) ?ups"
         "map_of (s3_buckets (fake w')) tb = Some b'"
         "map_of b'
            = foldl (\<lambda>m p. m(?key p \<mapsto> projr (read_file (local_fs w) p))) (map_of fb) ?ups"
      by auto
    have "dispatch (Suc (Suc n)) FakeAWS_get_dispatcher ?i w = (Inr VNone, w')"
      using r(1) by (simp add: FakeAWS_get_dispatcher_def)
    moreover have "dispatched w' = dispatched w @ ?i # map (UploadToS3 sp tb tk) ?ups"
      using r(2) by simp
    moreover have "\<forall>p \<in> set ?ups. \<exists>c. map_of (local_fs w) p = Some (File c) \<and>
                                map_of b' (?key p) = Some c"
    proof
      fix p assume p: "p \<in> set ?ups"
      have "map_of b' (?key p) = Some (projr (read_file (local_fs w) p))"
        unfolding r(4) using inj p by (rule foldl_upd_in)
      then show "\<exists>c. map_of (local_fs w) p = Some (File c) \<and> map_of b' (?key p) = Some c"
        using content [OF p] by blast
    qed
    moreover have "\<forall>k. k \<notin> ?key ` set ?ups \<longrightarrow> map_of b' k = map_of fb k"
      unfolding r(4) by (simp add: foldl_upd_notin)
    ultimately show ?thesis using r(3) by blast
  qed
  show ?thesis
    unfolding Let_def using real fake by blast
qed


theorem upload_recursively_selected_files_witness:
  "map_of (buckets (boto example_world)) ''docs'' = Some example_bucket \<and>
   map_of (s3_buckets (fake example_world)) ''docs'' = Some example_fake_bucket \<and>
   [p \<leftarrow> walk (local_fs example_world) ''/src''.
      basename p \<in> set [''a.txt'', ''c.log''] \<and> isfile (local_fs example_world) p]
     = [''/src/a.txt'', ''/src/d/c.log''] \<and>
   (\<exists>w' b'.
      dispatch (Suc (Suc 0)) boto_dispatcher
          (UploadToS3Recursively ''/src'' ''docs'' ''up'' [''a.txt'', ''c.log'']) example_world
        = (Inr VNone, w') \<and>
      dispatched w'
        = [UploadToS3Recursively ''/src'' ''docs'' ''up'' [''a.txt'', ''c.log''],
           UploadToS3 ''/src'' ''docs'' ''up'' ''/src/a.txt'',
           UploadToS3 ''/src'' ''docs'' ''up'' ''/src/d/c.log''] \<and>
      map_of (buckets (boto w')) ''docs'' = Some b' \<and>
      map_of (objects b') ''up/a.txt'' = Some (''A'', True) \<and>
      map_of (objects b') ''up/d/c.log'' = Some (''C'', True) \<and>
      map_of (objects b') ''up/b.txt'' = None) \<and>
   (\<exists>w' b'.
      dispatch (Suc (Suc 0)) FakeAWS_get_dispatcher
          (UploadToS3Recursively ''/src'' ''docs'' ''up'' [''a.txt'', ''c.log'']) example_world
        = (Inr VNone, w') \<and>
      dispatched w'
        = [UploadToS3Recursively ''/src'' ''docs'' ''up'' [''a.txt'', ''c.log''],
           UploadToS3 ''/src'' ''docs'' ''up'' ''/src/a.txt'',
           UploadToS3 ''/src'' ''docs'' ''up'' ''/src/d/c.log''] \<and>
      map_of (s3_buckets (fake w')) ''docs'' = Some b' \<and>
      map_of b' ''up/a.txt'' = Some ''A'' \<and>
      map_of b' ''up/d/c.log'' = Some ''C'' \<and>
      map_of b' ''up/b.txt'' = None)"
proof -
  have rb: "map_of (buckets (boto example_world)) ''docs'' = Some example_bucket"
    by (simp add: example_world_def)
  have fb: "map_of (s3_buckets (fake example_world)) ''docs'' = Some example_fake_bucket"
    by (simp add: example_world_def)
  have fs: "local_fs example_world
            = [(''/'', Dir), (''/src'', Dir), (''/src/a.txt'', File ''A''),
               (''/src/b.txt'', File ''B''), (''/src/d'', Dir),
               (''/src/d/c.log'', File ''C''), (''/src/empty'', File []), (''/t'', Dir)]"
    by (simp add: example_world_def)
  have ups: "[p \<leftarrow> walk (local_fs example_world) ''/src''.
                basename p \<in> set [''a.txt'', ''c.log''] \<and> isfile (local_fs example_world) p]
             = [''/src/a.txt'', ''/src/d/c.log'']"
    unfolding fs
    by (simp add: walk.simps isdir_def isfile_def children_def dirname_def rstrip_slash_def
          basename_def)
  have d0: "dispatched example_world = []"
    by (simp add: example_world_def)
  have nr: "map_of (objects example_bucket) ''up/b.txt'' = None"
    by (simp add: example_bucket_def)
  have nf: "map_of example_fake_bucket ''up/b.txt'' = None"
    by (simp add: example_fake_bucket_def)
  note t = upload_recursively_selected_files [where w = example_world and sp = "''/src''"
      and files = "[''a.txt'', ''c.log'']" and tk = "''up''" and tb = "''docs''"
      and rb = example_bucket and n = 0 and fb = example_fake_bucket, unfolded Let_def ups]
  from t rb obtain w1 b1 where
    r: "dispatch (Suc (Suc 0)) boto_dispatcher
          (UploadToS3Recursively ''/src'' ''docs'' ''up'' [''a.txt'', ''c.log'']) example_world
        = (Inr VNone, w1)"
       "dispatched w1 = dispatched example_world
          @ UploadToS3Recursively ''/src'' ''docs'' ''up'' [''a.txt'', ''c.log'']
          # map (UploadToS3 ''/src'' ''docs'' ''up'') [''/src/a.txt'', ''/src/d/c.log'']"
       "map_of (buckets (boto w1)) ''docs'' = Some b1"
       "\<forall>p \<in> set [''/src/a.txt'', ''/src/d/c.log''].
          \<exists>c. map_of (local_fs example_world) p = Some (File c) \<and>
              map_of (objects b1) (''up'' @ drop (length ''/src'') p) = Some (c, True)"
       "\<forall>k. k \<notin> (\<lambda>p. ''up'' @ drop (length ''/src'') p) ` set [''/src/a.txt'', ''/src/d/c.log'']
            \<longrightarrow> map_of (objects b1) k = map_of (objects example_bucket) k"
    by blast
  from t fb obtain w2 b2 where
    f: "dispatch (Suc (Suc 0)) FakeAWS_get_dispatcher
          (UploadToS3Recursively ''/src'' ''docs'' ''up'' [''a.txt'', ''c.log'']) example_world
        = (Inr VNone, w2)"
       "dispatched w2 = dispatched example_world
          @ UploadToS3Recursively ''/src'' ''docs'' ''up'' [''a.txt'', ''c.log'']
          # map (UploadToS3 ''/src'' ''docs'' ''up'') [''/src/a.txt'', ''/src/d/c.log'']"
       "map_of (s3_buckets (fake w2)) ''docs'' = Some b2"
       "\<forall>p \<in> set [''/src/a.txt'', ''/src/d/c.log''].
          \<exists>c. map_of (local_fs example_world) p = Some (File c) \<and>
              map_of b2 (''up'' @ drop (length ''/src'') p) = Some c"
       "\<forall>k. k \<notin> (\<lambda>p. ''up'' @ drop (length ''/src'') p) ` set [''/src/a.txt'', ''/src/d/c.log'']
            \<longrightarrow> map_of b2 k = map_of example_fake_bucket k"
    by blast
  have r4: "map_of (objects b1) ''up/a.txt'' = Some (''A'', True) \<and>
            map_of (objects b1) ''up/d/c.log'' = Some (''C'', True)"
    using r(4) unfolding fs by simp
  have r5: "map_of (objects b1) ''up/b.txt'' = None"
    using r(5) [rule_format, of "''up/b.txt''"] nr by simp
  have f4: "map_of b2 ''up/a.txt'' = Some ''A'' \<and> map_of b2 ''up/d/c.log'' = Some ''C''"
    using f(4) unfolding fs by simp
  have f5: "map_of b2 ''up/b.txt'' = None"
    using f(5) [rule_format, of "''up/b.txt''"] nf by simp
  have r2: "dispatched w1
        = [UploadToS3Recursively ''/src'' ''docs'' ''up'' [''a.txt'', ''c.log''],
           UploadToS3 ''/src'' ''docs'' ''up'' ''/src/a.txt'',
           UploadToS3 ''/src'' ''docs'' ''up'' ''/src/d/c.log'']"
    using r(2) d0 by simp
  have f2: "dispatched w2
        = [UploadToS3Recursively ''/src'' ''docs'' ''up'' [''a.txt'', ''c.log''],
           UploadToS3 ''/src'' ''docs'' ''up'' ''/src/a.txt'',
           UploadToS3 ''/src'' ''docs'' ''up'' ''/src/d/c.log'']"
    using f(2) d0 by simp
  show ?thesis
    using rb fb ups r(1) r2 r(3) r4 r5 f(1) f2 f(3) f4 f5 by blast
qed


section \<open>Recursive download\<close>





end
